theory Spec2Isabelle
  imports Complex_Main
begin

section \<open>Python values and strings\<close>

text \<open>
  The converter (\<^verbatim>\<open>csv_to_excel_converter.py\<close>) is a Python script over pandas and
  openpyxl. Python strings are modelled as \<^typ>\<open>string\<close>, one \<^typ>\<open>char\<close> per code point
  (so the model covers code points below 256), Python and numpy integers as \<^typ>\<open>int\<close>,
  and a binary64 float as \<open>pyfloat\<close>: not-a-number, the two infinities, or a finite
  value kept as the rational number it denotes (the sign of zero is not kept).
\<close>

datatype pyfloat = NaN | PosInf | NegInf | Fin rat

datatype pyval = PNone | PBool bool | PInt int | PFloat pyfloat | PStr string

text \<open>Exceptions (all of them subclasses of Python's \<^verbatim>\<open>Exception\<close>).\<close>

datatype exn =
    UnicodeDecodeError
  | AttributeError
  | KeyError
  | ValueError
  | ZeroDivisionError
  | FileNotFoundError
  | ParserError
  | EmptyDataError
  | OSError
  | IllegalCharacterError

definition bind :: "exn + 'a \<Rightarrow> ('a \<Rightarrow> exn + 'b) \<Rightarrow> exn + 'b" where
  "bind m f = (case m of Inl e \<Rightarrow> Inl e | Inr x \<Rightarrow> f x)"

text \<open>
  A sequence of statements and a \<^verbatim>\<open>for\<close> loop over a list, each step of which may
  raise; \<open>returns g\<close> is a step that changes the state by \<open>g\<close> and does not raise.
\<close>

fun run_all :: "('a \<Rightarrow> exn + 'a) list \<Rightarrow> 'a \<Rightarrow> exn + 'a" where
  "run_all [] x = Inr x"
| "run_all (f # fs) x = bind (f x) (run_all fs)"

fun for_each :: "('b \<Rightarrow> 'a \<Rightarrow> exn + 'a) \<Rightarrow> 'b list \<Rightarrow> 'a \<Rightarrow> exn + 'a" where
  "for_each f [] x = Inr x"
| "for_each f (y # ys) x = bind (f y x) (for_each f ys)"

definition returns :: "('a \<Rightarrow> 'a) \<Rightarrow> 'a \<Rightarrow> exn + 'a" where
  "returns g x = Inr (g x)"

text \<open>
  \<^verbatim>\<open>try: body  except E: handler\<close>: the handler runs only when the body raises an
  exception that the clause catches; any other exception propagates.
\<close>

definition try_except :: "exn + 'a \<Rightarrow> (exn \<Rightarrow> bool) \<Rightarrow> exn + 'a \<Rightarrow> exn + 'a" where
  "try_except body catches handler =
     (case body of Inl e \<Rightarrow> (if catches e then handler else Inl e) | Inr x \<Rightarrow> Inr x)"

subsection \<open>\<^verbatim>\<open>str.replace\<close>, \<^verbatim>\<open>str.strip\<close>, \<^verbatim>\<open>os.path.basename\<close>\<close>

text \<open>
  \<^verbatim>\<open>s.replace(old, new)\<close> scans from the left and replaces every non-overlapping
  occurrence of \<open>old\<close>.
\<close>

function replace_from :: "string \<Rightarrow> string \<Rightarrow> string \<Rightarrow> string" where
  "replace_from old new [] = []"
| "replace_from old new (c # cs) =
     (if old \<noteq> [] \<and> take (length old) (c # cs) = old
      then new @ replace_from old new (drop (length old) (c # cs))
      else c # replace_from old new cs)"
  by pat_completeness auto
termination
  by (relation "measure (\<lambda>(old, new, s). length s)") auto

definition py_replace :: "string \<Rightarrow> string \<Rightarrow> string \<Rightarrow> string" where
  "py_replace s old new =
     (if old = [] then new @ concat (map (\<lambda>c. c # new) s) else replace_from old new s)"

text \<open>\<^verbatim>\<open>old in s\<close>: the string \<open>old\<close> occurs in \<open>s\<close>.\<close>

definition py_in :: "string \<Rightarrow> string \<Rightarrow> bool" where
  "py_in old s = list_ex (\<lambda>i. take (length old) (drop i s) = old) [0..<length s + 1]"

text \<open>The code points below 256 that \<^verbatim>\<open>str.strip()\<close> removes.\<close>

definition py_isspace :: "char \<Rightarrow> bool" where
  "py_isspace c = (of_char c \<in> {9, 10, 11, 12, 13, 28, 29, 30, 31, 32, 133, 160 :: nat})"

definition py_strip :: "string \<Rightarrow> string" where
  "py_strip s = rev (dropWhile py_isspace (rev (dropWhile py_isspace s)))"

definition basename :: "string \<Rightarrow> string" where
  "basename p = rev (takeWhile (\<lambda>c. c \<noteq> CHR ''/'') (rev p))"

subsection \<open>\<^verbatim>\<open>str()\<close> of integers\<close>

definition digit_char :: "nat \<Rightarrow> char" where
  "digit_char d = ''0123456789'' ! d"

fun str_nat :: "nat \<Rightarrow> string" where
  "str_nat n = (if n < 10 then [digit_char n] else str_nat (n div 10) @ [digit_char (n mod 10)])"

declare str_nat.simps [simp del]

definition str_int :: "int \<Rightarrow> string" where
  "str_int i = (if i < 0 then CHR ''-'' # str_nat (nat (- i)) else str_nat (nat i))"

subsection \<open>Binary64 arithmetic on the percentages\<close>

text \<open>
  The percentages are computed in floating point: a count divided by a count, times 100,
  printed with the format \<^verbatim>\<open>.2f\<close>. Each operation rounds its exact result to the
  nearest binary64 value, ties to the even significand; \<open>to_double\<close> is that rounding,
  with gradual underflow below \<open>2 ^ -1022\<close> and overflow to infinity from \<open>2 ^ 1024\<close>.
\<close>

function bitlen :: "int \<Rightarrow> nat" where
  "bitlen n = (if n \<le> 0 then 0 else Suc (bitlen (n div 2)))"
  by pat_completeness auto
termination
  by (relation "measure nat") auto

declare bitlen.simps [simp del]

definition pow2 :: "int \<Rightarrow> rat" where
  "pow2 e = (if 0 \<le> e then 2 ^ nat e else 1 / 2 ^ nat (- e))"

text \<open>\<open>ilog2 q\<close> is the exponent \<open>e\<close> with \<open>2 ^ e \<le> q < 2 ^ (e + 1)\<close>, for \<open>0 < q\<close>.\<close>

definition ilog2 :: "rat \<Rightarrow> int" where
  "ilog2 q =
     (let (a, b) = quotient_of q;
          e0 = int (bitlen a) - int (bitlen b)
      in if pow2 e0 \<le> q then e0 else e0 - 1)"

definition round_half_even :: "rat \<Rightarrow> int" where
  "round_half_even q =
     (let f = \<lfloor>q\<rfloor>; d = q - of_int f
      in if d < 1 / 2 then f else if 1 / 2 < d then f + 1 else if even f then f else f + 1)"

definition round_binary64 :: "rat \<Rightarrow> rat" where
  "round_binary64 q =
     (if q = 0 then 0
      else let ulp = pow2 (max (ilog2 \<bar>q\<bar>) (- 1022) - 52);
               m = of_int (round_half_even (\<bar>q\<bar> / ulp)) * ulp
           in if q < 0 then - m else m)"

definition to_double :: "rat \<Rightarrow> pyfloat" where
  "to_double q =
     (let r = round_binary64 q
      in if pow2 1024 \<le> r then PosInf else if r \<le> - pow2 1024 then NegInf else Fin r)"

text \<open>
  \<^verbatim>\<open>numpy.int64 / int\<close>: both operands become binary64, and a zero divisor gives
  not-a-number or an infinity (with a warning), not an exception.
\<close>

definition np_true_divide :: "int \<Rightarrow> int \<Rightarrow> pyfloat" where
  "np_true_divide a b =
     (if b = 0 then (if a = 0 then NaN else if 0 < a then PosInf else NegInf)
      else to_double (round_binary64 (of_int a) / round_binary64 (of_int b)))"

text \<open>
  \<^verbatim>\<open>int / int\<close> on Python integers: a zero divisor raises, otherwise the exact
  quotient is rounded once.
\<close>

definition py_true_divide :: "int \<Rightarrow> int \<Rightarrow> exn + pyfloat" where
  "py_true_divide a b =
     (if b = 0 then Inl ZeroDivisionError else Inr (to_double (of_int a / of_int b)))"

text \<open>\<^verbatim>\<open>x * 100\<close> on a float.\<close>

definition times_100 :: "pyfloat \<Rightarrow> pyfloat" where
  "times_100 x = (case x of Fin q \<Rightarrow> to_double (q * 100) | _ \<Rightarrow> x)"

text \<open>
  The format \<^verbatim>\<open>.2f\<close>: the exact value rounded to hundredths, ties to even, with at
  least one digit before the point.
\<close>

definition format_2f :: "pyfloat \<Rightarrow> string" where
  "format_2f x =
     (case x of
        NaN \<Rightarrow> ''nan''
      | PosInf \<Rightarrow> ''inf''
      | NegInf \<Rightarrow> ''-inf''
      | Fin q \<Rightarrow>
          (let n = nat (round_half_even (\<bar>q\<bar> * 100))
           in (if q < 0 then ''-'' else '''') @ str_nat (n div 100) @ ''.''
              @ [digit_char (n mod 100 div 10), digit_char (n mod 10)]))"

definition percent_str :: "pyfloat \<Rightarrow> string" where
  "percent_str x = format_2f (times_100 x) @ ''%''"

section \<open>The loaded table\<close>

text \<open>
  A pandas data frame as the script uses it: an index of \<open>df_len\<close> rows and a list of
  columns, each with its label, its dtype and its values. A missing entry is the float
  not-a-number (\<^verbatim>\<open>None\<close> counts as missing too).
\<close>

datatype dtype = Int64 | Float64 | Bool | Object

definition dtype_str :: "dtype \<Rightarrow> string" where
  "dtype_str d = (case d of Int64 \<Rightarrow> ''int64'' | Float64 \<Rightarrow> ''float64''
                  | Bool \<Rightarrow> ''bool'' | Object \<Rightarrow> ''object'')"

text \<open>\<^verbatim>\<open>select_dtypes(include=[np.number])\<close> keeps integer and float columns.\<close>

definition is_number :: "dtype \<Rightarrow> bool" where
  "is_number d = (d = Int64 \<or> d = Float64)"

record column =
  cname :: string
  cdtype :: dtype
  cvalues :: "pyval list"

record dataframe =
  df_columns :: "column list"
  df_len :: nat

definition wf_dataframe :: "dataframe \<Rightarrow> bool" where
  "wf_dataframe df =
     (df_columns df \<noteq> [] \<and> list_all (\<lambda>c. length (cvalues c) = df_len df) (df_columns df))"

definition isnull :: "pyval \<Rightarrow> bool" where
  "isnull v = (v = PNone \<or> v = PFloat NaN)"

definition notnull_float :: "pyfloat \<Rightarrow> bool" where
  "notnull_float x = (x \<noteq> NaN)"

text \<open>\<^verbatim>\<open>Series.count()\<close> and \<^verbatim>\<open>Series.isnull().sum()\<close>.\<close>

definition count :: "column \<Rightarrow> nat" where
  "count s = length (filter (\<lambda>v. \<not> isnull v) (cvalues s))"

definition null_count :: "column \<Rightarrow> nat" where
  "null_count s = length (filter isnull (cvalues s))"

text \<open>The distinct elements of a list, in the order of their first occurrence.\<close>

definition distinct_in_order :: "'a list \<Rightarrow> 'a list" where
  "distinct_in_order xs = rev (remdups (rev xs))"

text \<open>
  \<^verbatim>\<open>Series.unique()\<close> returns the distinct values, a missing value among them;
  \<^verbatim>\<open>Series.value_counts()\<close> drops the missing values and returns each distinct
  value with its number of occurrences, the most frequent first (equal counts are kept
  here in the order of first occurrence).
\<close>

definition unique :: "column \<Rightarrow> pyval list" where
  "unique s = distinct_in_order (cvalues s)"

definition value_counts :: "column \<Rightarrow> (pyval \<times> nat) list" where
  "value_counts s =
     (let vs = filter (\<lambda>v. \<not> isnull v) (cvalues s)
      in sort_key (\<lambda>(v, n). - int n) (map (\<lambda>v. (v, count_list vs v)) (distinct_in_order vs)))"

text \<open>
  \<^verbatim>\<open>self.data[col]\<close> is a Series when one column carries the label \<open>col\<close>, and a
  DataFrame when several do; \<open>on_frame\<close> is the exception that the code following the
  lookup raises on a DataFrame.
\<close>

definition series_of :: "exn \<Rightarrow> dataframe \<Rightarrow> string \<Rightarrow> exn + column" where
  "series_of on_frame df col =
     (case filter (\<lambda>c. cname c = col) (df_columns df) of
        [] \<Rightarrow> Inl KeyError
      | [c] \<Rightarrow> Inr c
      | _ \<Rightarrow> Inl on_frame)"

definition numeric_cols :: "dataframe \<Rightarrow> string list" where
  "numeric_cols df = map cname (filter (\<lambda>c. is_number (cdtype c)) (df_columns df))"

definition categorical_cols :: "dataframe \<Rightarrow> string list" where
  "categorical_cols df = map cname (filter (\<lambda>c. cdtype c = Object) (df_columns df))"

datatype stat = StCount | StMean | StStd | StMin | StQ25 | StQ50 | StQ75 | StMax

definition stat_index :: "(stat \<times> string) list" where
  "stat_index = [(StCount, ''count''), (StMean, ''mean''), (StStd, ''std''), (StMin, ''min''),
                 (StQ25, ''25%''), (StQ50, ''50%''), (StQ75, ''75%''), (StMax, ''max'')]"

section \<open>The workbook\<close>

record font =
  bold :: bool
  color :: "string option"
  font_size :: nat

record pattern_fill =
  start_color :: string
  end_color :: string
  fill_type :: string

record alignment =
  horizontal :: string
  vertical :: string

text \<open>A cell: its value and its styles (\<open>cborder\<close>: a thin border on the four sides).\<close>

record cell =
  cvalue :: pyval
  cfont :: font
  cfill :: "pattern_fill option"
  calignment :: "alignment option"
  cborder :: bool

record xl_table =
  display_name :: string
  table_ref :: "(nat \<times> nat) \<times> (nat \<times> nat)"
  style_name :: string
  show_first_column :: bool
  show_last_column :: bool
  show_row_stripes :: bool
  show_column_stripes :: bool

record reference =
  min_col :: nat
  min_row :: nat
  max_col :: nat
  max_row :: nat

datatype chart_kind = BarChart | PieChart

record chart =
  kind :: chart_kind
  chart_title :: string
  x_axis_title :: "string option"
  y_axis_title :: "string option"
  chart_data :: reference
  chart_categories :: reference
  anchor :: string

text \<open>
  A worksheet: the cells that exist, keyed by (row, column) from 1; the largest row and
  column among them (\<open>hi_row\<close>, \<open>hi_col\<close>: 0 when there is no cell); the row that
  \<^verbatim>\<open>append\<close> last wrote; the column widths; the tables and the charts.
\<close>

record worksheet =
  title :: string
  cells :: "nat \<times> nat \<Rightarrow> cell option"
  hi_row :: nat
  hi_col :: nat
  current_row :: nat
  column_width :: "nat \<Rightarrow> nat option"
  tables :: "xl_table list"
  charts :: "chart list"

record workbook =
  worksheets :: "worksheet list"
  active :: nat
  prop_title :: "string option"
  prop_subject :: "string option"
  prop_creator :: "string option"
  prop_description :: "string option"

section \<open>The environment\<close>

datatype encoding = UTF8 | UTF8_SIG | LATIN1

datatype disk_file = RawFile string | WorkbookFile workbook

type_synonym filesystem = "string \<Rightarrow> disk_file option"

text \<open>
  What the script calls in pandas, openpyxl and the operating system and what is not
  part of its own source is a parameter of the model: the CSV parser for a path and an
  encoding, \<^verbatim>\<open>str()\<close> of a finite float, the mean and the descriptive statistics of
  a column, the renaming of a sheet whose title is taken, and whether (and how) writing
  the workbook file fails.
\<close>

record library =
  read_csv :: "filesystem \<Rightarrow> string \<Rightarrow> encoding \<Rightarrow> exn + dataframe"
  float_str :: "rat \<Rightarrow> string"
  series_mean :: "column \<Rightarrow> pyfloat"
  describe :: "column \<Rightarrow> stat \<Rightarrow> pyfloat"
  avoid_duplicate_name :: "string list \<Rightarrow> string \<Rightarrow> string"
  save_failure :: "workbook \<Rightarrow> string \<Rightarrow> filesystem \<Rightarrow> (exn \<times> disk_file option) option"

text \<open>
  The two readings of the clock, as \<^verbatim>\<open>strftime\<close> prints them: in the summary sheet
  (\<^verbatim>\<open>%Y-%m-%d %H:%M:%S\<close>) and in the finalizer (\<^verbatim>\<open>%Y-%m-%d\<close>).
\<close>

record clock =
  summary_stamp :: string
  finalize_stamp :: string

definition py_str :: "library \<Rightarrow> pyval \<Rightarrow> string" where
  "py_str L v =
     (case v of
        PNone \<Rightarrow> ''None''
      | PBool b \<Rightarrow> (if b then ''True'' else ''False'')
      | PInt i \<Rightarrow> str_int i
      | PFloat x \<Rightarrow> (case x of NaN \<Rightarrow> ''nan'' | PosInf \<Rightarrow> ''inf'' | NegInf \<Rightarrow> ''-inf''
                      | Fin q \<Rightarrow> float_str L q)
      | PStr s \<Rightarrow> s)"

section \<open>Worksheet operations\<close>

definition new_worksheet :: "string \<Rightarrow> worksheet" where
  "new_worksheet t =
     \<lparr>title = t, cells = (\<lambda>_. None), hi_row = 0, hi_col = 0, current_row = 0,
      column_width = (\<lambda>_. None), tables = [], charts = []\<rparr>"

text \<open>\<^verbatim>\<open>ws.max_row\<close> and \<^verbatim>\<open>ws.max_column\<close> are 1 on a sheet without cells.\<close>

definition ws_max_row :: "worksheet \<Rightarrow> nat" where
  "ws_max_row ws = (if hi_row ws = 0 then 1 else hi_row ws)"

definition ws_max_column :: "worksheet \<Rightarrow> nat" where
  "ws_max_column ws = (if hi_col ws = 0 then 1 else hi_col ws)"

definition default_font :: font where
  "default_font = \<lparr>bold = False, color = None, font_size = 11\<rparr>"

definition default_cell :: cell where
  "default_cell =
     \<lparr>cvalue = PNone, cfont = default_font, cfill = None, calignment = None, cborder = False\<rparr>"

definition get_cell :: "worksheet \<Rightarrow> nat \<Rightarrow> nat \<Rightarrow> cell" where
  "get_cell ws r c = (case cells ws (r, c) of None \<Rightarrow> default_cell | Some x \<Rightarrow> x)"

text \<open>
  Reaching a cell through the sheet (\<^verbatim>\<open>ws['A1']\<close>, \<^verbatim>\<open>ws.cell(r, c)\<close>, an iterator)
  creates it when it does not exist; \<open>update_cell f r c\<close> reaches the cell and changes
  it by \<open>f\<close>.
\<close>

definition update_cell :: "(cell \<Rightarrow> cell) \<Rightarrow> nat \<Rightarrow> nat \<Rightarrow> worksheet \<Rightarrow> worksheet" where
  "update_cell f r c ws =
     ws\<lparr>cells := (cells ws)((r, c) := Some (f (get_cell ws r c))),
        hi_row := max (hi_row ws) r, hi_col := max (hi_col ws) c,
        current_row := max (current_row ws) r\<rparr>"

text \<open>
  A value given to a cell (\<^verbatim>\<open>ws['A1'] = v\<close>, \<^verbatim>\<open>ws.cell(r, c, value=v)\<close>, a value
  of \<^verbatim>\<open>ws.append\<close>) passes openpyxl's check of strings: the text is cut to its first
  32767 characters, and a control character in what is left (a code below 32 other than
  tab, line feed and carriage return) raises \<^verbatim>\<open>IllegalCharacterError\<close>. A value that
  is not a string is stored as it is.
\<close>

definition illegal_character :: "char \<Rightarrow> bool" where
  "illegal_character c =
     (let n = (of_char c :: nat) in n \<le> 8 \<or> n = 11 \<or> n = 12 \<or> (14 \<le> n \<and> n \<le> 31))"

definition check_string :: "string \<Rightarrow> exn + string" where
  "check_string s =
     (if list_ex illegal_character (take 32767 s) then Inl IllegalCharacterError
      else Inr (take 32767 s))"

definition bind_value :: "pyval \<Rightarrow> exn + pyval" where
  "bind_value v =
     (case v of PStr s \<Rightarrow> bind (check_string s) (\<lambda>t. Inr (PStr t)) | _ \<Rightarrow> Inr v)"

definition set_value :: "nat \<Rightarrow> nat \<Rightarrow> pyval \<Rightarrow> worksheet \<Rightarrow> exn + worksheet" where
  "set_value r c v ws =
     bind (bind_value v) (\<lambda>x. Inr (update_cell (\<lambda>y. y\<lparr>cvalue := x\<rparr>) r c ws))"

definition set_font :: "nat \<Rightarrow> nat \<Rightarrow> font \<Rightarrow> worksheet \<Rightarrow> worksheet" where
  "set_font r c f = update_cell (\<lambda>x. x\<lparr>cfont := f\<rparr>) r c"

definition update_range ::
  "(cell \<Rightarrow> cell) \<Rightarrow> nat list \<Rightarrow> nat list \<Rightarrow> worksheet \<Rightarrow> worksheet" where
  "update_range f rows cols ws = fold (\<lambda>r. fold (\<lambda>c. update_cell f r c) cols) rows ws"

text \<open>
  \<^verbatim>\<open>ws.append(row)\<close> writes new cells into the row after \<open>current_row\<close>, one value
  after the other, and moves \<open>current_row\<close> once the row is written.
\<close>

definition ws_append :: "pyval list \<Rightarrow> worksheet \<Rightarrow> exn + worksheet" where
  "ws_append row ws =
     (let r = current_row ws + 1
      in bind (for_each
                 (\<lambda>(j, v) w.
                    bind (bind_value v)
                         (\<lambda>x. Inr (w\<lparr>cells := (cells w)((r, j) := Some (default_cell\<lparr>cvalue := x\<rparr>)),
                                     hi_row := max (hi_row w) r, hi_col := max (hi_col w) j\<rparr>)))
                 (enumerate 1 row) ws)
              (\<lambda>w. Inr (w\<lparr>current_row := r\<rparr>)))"

text \<open>
  The loop that sizes the columns stands twice in the source, with the caps 50 and 30.
  \<^verbatim>\<open>ws.columns\<close> yields nothing on a sheet that was never written, and otherwise the
  columns 1 to \<open>max_column\<close>, each with the cells of the rows 1 to \<open>max_row\<close>.
\<close>

definition adjust_column :: "library \<Rightarrow> nat \<Rightarrow> nat \<Rightarrow> nat \<Rightarrow> worksheet \<Rightarrow> worksheet" where
  "adjust_column L cap n j ws =
     (let ws1 = fold (\<lambda>r. update_cell (\<lambda>x. x) r j) [1..<n + 1] ws;
          max_length =
            fold (\<lambda>r m. if m < length (py_str L (cvalue (get_cell ws1 r j)))
                         then length (py_str L (cvalue (get_cell ws1 r j))) else m)
                 [1..<n + 1] 0
      in ws1\<lparr>column_width := (column_width ws1)(j := Some (min (max_length + 2) cap))\<rparr>)"

definition auto_adjust_widths :: "library \<Rightarrow> nat \<Rightarrow> worksheet \<Rightarrow> worksheet" where
  "auto_adjust_widths L cap ws =
     (if current_row ws = 0 then ws
      else fold (adjust_column L cap (ws_max_row ws)) [1..<ws_max_column ws + 1] ws)"

section \<open>The converter\<close>

record converter =
  csv_file_path :: string
  output_file_path :: string

text \<open>
  \<^verbatim>\<open>output_file_path or csv_file_path.replace('.csv', '_comprehensive.xlsx')\<close>: the
  default is taken when no path is given, and also when the empty string is given.
\<close>

definition init :: "string \<Rightarrow> string option \<Rightarrow> converter" where
  "init path out =
     \<lparr>csv_file_path = path,
      output_file_path =
        (case out of
           None \<Rightarrow> py_replace path ''.csv'' ''_comprehensive.xlsx''
         | Some p \<Rightarrow> if p = [] then py_replace path ''.csv'' ''_comprehensive.xlsx'' else p)\<rparr>"

definition header_font :: font where
  "header_font = \<lparr>bold = True, color = Some ''FFFFFF'', font_size = 12\<rparr>"

definition header_fill :: pattern_fill where
  "header_fill = \<lparr>start_color = ''366092'', end_color = ''366092'', fill_type = ''solid''\<rparr>"

definition header_alignment :: alignment where
  "header_alignment = \<lparr>horizontal = ''center'', vertical = ''center''\<rparr>"

definition data_font :: font where
  "data_font = \<lparr>bold = False, color = None, font_size = 10\<rparr>"

definition data_alignment :: alignment where
  "data_alignment = \<lparr>horizontal = ''left'', vertical = ''center''\<rparr>"

definition title_font :: "nat \<Rightarrow> font" where
  "title_font n = \<lparr>bold = True, color = None, font_size = n\<rparr>"

subsection \<open>\<^verbatim>\<open>load_data\<close>\<close>

text \<open>\<^verbatim>\<open>self.data.columns = self.data.columns.str.strip()\<close>\<close>

definition strip_columns :: "dataframe \<Rightarrow> dataframe" where
  "strip_columns data =
     data\<lparr>df_columns := map (\<lambda>c. c\<lparr>cname := py_strip (cname c)\<rparr>) (df_columns data)\<rparr>"

definition load_data :: "library \<Rightarrow> filesystem \<Rightarrow> string \<Rightarrow> exn + dataframe" where
  "load_data L fs path =
     bind (try_except (read_csv L fs path UTF8) (\<lambda>e. e = UnicodeDecodeError)
            (try_except (read_csv L fs path UTF8_SIG) (\<lambda>e. e = UnicodeDecodeError)
              (read_csv L fs path LATIN1)))
          (\<lambda>data. Inr (strip_columns data))"

subsection \<open>\<^verbatim>\<open>create_workbook\<close> and \<^verbatim>\<open>create_sheet\<close>\<close>

definition create_workbook :: workbook where
  "create_workbook =
     \<lparr>worksheets = [], active = 0, prop_title = None, prop_subject = None,
      prop_creator = None, prop_description = None\<rparr>"

definition sheetnames :: "workbook \<Rightarrow> string list" where
  "sheetnames wb = map title (worksheets wb)"

text \<open>
  \<^verbatim>\<open>Workbook.create_sheet(title)\<close> refuses a title with one of the characters
  \<^verbatim>\<open>\ * ? : / [ ]\<close> (a \<^verbatim>\<open>ValueError\<close>) and renames a title that is taken. The sheet
  is a reference into the workbook in Python; here each generator fills the sheet and
  then puts it at the end of the workbook, which is where \<^verbatim>\<open>create_sheet\<close> put it.
\<close>

definition invalid_title_chars :: "char list" where
  "invalid_title_chars = [CHR 0x5C, CHR ''*'', CHR ''?'', CHR '':'', CHR ''/'', CHR ''['', CHR '']'']"

definition valid_title :: "string \<Rightarrow> bool" where
  "valid_title t = (\<not> list_ex (\<lambda>c. c \<in> set invalid_title_chars) t)"

definition create_sheet :: "library \<Rightarrow> workbook \<Rightarrow> string \<Rightarrow> exn + worksheet" where
  "create_sheet L wb t =
     (if valid_title t then Inr (new_worksheet (avoid_duplicate_name L (sheetnames wb) t))
      else Inl ValueError)"

definition add_sheet :: "workbook \<Rightarrow> worksheet \<Rightarrow> workbook" where
  "add_sheet wb ws = wb\<lparr>worksheets := worksheets wb @ [ws]\<rparr>"

subsection \<open>\<^verbatim>\<open>create_main_data_sheet\<close>\<close>

text \<open>\<^verbatim>\<open>dataframe_to_rows(df, index=False, header=True)\<close>: the labels, then the rows.\<close>

definition dataframe_to_rows :: "dataframe \<Rightarrow> pyval list list" where
  "dataframe_to_rows df =
     map (\<lambda>c. PStr (cname c)) (df_columns df)
     # map (\<lambda>i. map (\<lambda>c. cvalues c ! i) (df_columns df)) [0..<df_len df]"

definition header_style :: "cell \<Rightarrow> cell" where
  "header_style x =
     x\<lparr>cfont := header_font, cfill := Some header_fill,
       calignment := Some header_alignment, cborder := True\<rparr>"

definition data_style :: "cell \<Rightarrow> cell" where
  "data_style x = x\<lparr>cfont := data_font, calignment := Some data_alignment, cborder := True\<rparr>"

definition data_table :: "worksheet \<Rightarrow> xl_table" where
  "data_table ws =
     \<lparr>display_name = ''DataTable'',
      table_ref = ((1, 1), (ws_max_row ws, ws_max_column ws)),
      style_name = ''TableStyleMedium9'',
      show_first_column = False, show_last_column = False,
      show_row_stripes = True, show_column_stripes = True\<rparr>"

text \<open>The styling, the column widths and the table, once the rows are written.\<close>

definition format_main_sheet :: "library \<Rightarrow> nat \<Rightarrow> worksheet \<Rightarrow> worksheet" where
  "format_main_sheet L n ws1 =
     (let ws2 = update_range header_style [1] [1..<ws_max_column ws1 + 1] ws1;
          ws3 = update_range data_style [2..<ws_max_row ws2 + 1] [1..<ws_max_column ws2 + 1] ws2;
          ws4 = auto_adjust_widths L 50 ws3
      in if 0 < n then ws4\<lparr>tables := tables ws4 @ [data_table ws4]\<rparr> else ws4)"

definition main_data_sheet :: "library \<Rightarrow> dataframe \<Rightarrow> worksheet \<Rightarrow> exn + worksheet" where
  "main_data_sheet L df ws =
     bind (for_each ws_append (dataframe_to_rows df) ws)
          (\<lambda>ws1. Inr (format_main_sheet L (df_len df) ws1))"

definition create_main_data_sheet :: "library \<Rightarrow> workbook \<Rightarrow> dataframe \<Rightarrow> exn + workbook" where
  "create_main_data_sheet L wb df =
     bind (create_sheet L wb ''Complete Data'')
          (\<lambda>ws. bind (main_data_sheet L df ws) (\<lambda>ws'. Inr (add_sheet wb ws')))"

subsection \<open>\<^verbatim>\<open>create_summary_sheet\<close>\<close>

definition summary_header_style :: "cell \<Rightarrow> cell" where
  "summary_header_style x =
     x\<lparr>cfont := header_font, cfill := Some header_fill, calignment := Some header_alignment\<rparr>"

definition summary_head :: "string \<Rightarrow> dataframe \<Rightarrow> worksheet \<Rightarrow> exn + worksheet" where
  "summary_head stamp df =
     run_all
       [set_value 1 1 (PStr ''Dataset Overview''),
        returns (set_font 1 1 (title_font 16)),
        set_value 3 1 (PStr ''Total Records:''),
        set_value 3 2 (PInt (int (df_len df))),
        set_value 4 1 (PStr ''Total Columns:''),
        set_value 4 2 (PInt (int (length (df_columns df)))),
        set_value 5 1 (PStr ''File Generated:''),
        set_value 5 2 (PStr stamp),
        set_value 7 1 (PStr ''Column Information''),
        returns (set_font 7 1 (title_font 14)),
        set_value 8 1 (PStr ''Column Name''),
        set_value 8 2 (PStr ''Data Type''),
        set_value 8 3 (PStr ''Non-Null Count''),
        set_value 8 4 (PStr ''Null Count''),
        set_value 8 5 (PStr ''Null Percentage''),
        returns (update_range summary_header_style [8] [1, 2, 3, 4, 5])]"

text \<open>
  The loop over \<^verbatim>\<open>enumerate(self.data.columns, start=9)\<close>: the label is written
  first; then, on a label that several columns carry, \<^verbatim>\<open>self.data[col].dtype\<close>
  raises \<^verbatim>\<open>AttributeError\<close>.
\<close>

fun column_info :: "dataframe \<Rightarrow> (nat \<times> string) list \<Rightarrow> worksheet \<Rightarrow> exn + worksheet" where
  "column_info df [] ws = Inr ws"
| "column_info df ((i, col) # rest) ws =
     bind (set_value i 1 (PStr col) ws)
          (\<lambda>ws1. bind (series_of AttributeError df col)
             (\<lambda>s. bind (run_all
                           [set_value i 2 (PStr (dtype_str (cdtype s))),
                            set_value i 3 (PInt (int (count s))),
                            set_value i 4 (PInt (int (null_count s))),
                            set_value i 5
                              (PStr (percent_str
                                       (np_true_divide (int (null_count s)) (int (df_len df)))))]
                           ws1)
                        (column_info df rest)))"

text \<open>
  The statistics block is reached only after the loop above, so every label selects one
  column there.
\<close>

definition the_series :: "dataframe \<Rightarrow> string \<Rightarrow> column" where
  "the_series df col = hd (filter (\<lambda>c. cname c = col) (df_columns df))"

definition stat_cell :: "library \<Rightarrow> dataframe \<Rightarrow> string \<Rightarrow> stat \<Rightarrow> pyval" where
  "stat_cell L df col st =
     (let v = describe L (the_series df col) st
      in PStr (if notnull_float v then format_2f v else ''N/A''))"

definition stats_block :: "library \<Rightarrow> dataframe \<Rightarrow> worksheet \<Rightarrow> exn + worksheet" where
  "stats_block L df ws =
     (let start_row = length (df_columns df) + 11
      in run_all
           [set_value start_row 1 (PStr ''Numeric Columns Statistics''),
            returns (set_font start_row 1 (title_font 14)),
            for_each (\<lambda>(i, header) w.
                        bind (set_value (start_row + 2) (i + 1) (PStr header) w)
                             (returns (update_cell summary_header_style (start_row + 2) (i + 1))))
                     (enumerate 0 (''Statistic'' # numeric_cols df)),
            for_each (\<lambda>(i, (st, label)) w.
                        bind (set_value (start_row + 3 + i) 1 (PStr label) w)
                             (for_each (\<lambda>(j, col).
                                          set_value (start_row + 3 + i) (j + 2)
                                            (stat_cell L df col st))
                                       (enumerate 0 (numeric_cols df))))
                     (enumerate 0 stat_index)]
           ws)"

definition create_summary_sheet ::
  "library \<Rightarrow> string \<Rightarrow> workbook \<Rightarrow> dataframe \<Rightarrow> exn + workbook" where
  "create_summary_sheet L stamp wb df =
     bind (create_sheet L wb ''Data Summary'')
       (\<lambda>ws. bind (summary_head stamp df ws)
       (\<lambda>ws0. bind (column_info df (enumerate 9 (map cname (df_columns df))) ws0)
       (\<lambda>ws1. bind (if 0 < length (numeric_cols df) then stats_block L df ws1 else Inr ws1)
       (\<lambda>ws2. Inr (add_sheet wb (auto_adjust_widths L 30 ws2))))))"

subsection \<open>\<^verbatim>\<open>create_charts_sheet\<close>\<close>

text \<open>
  The means of the first ten numeric columns, without the undefined ones. On a label
  that several columns carry the mean is a Series, and testing it raises
  \<^verbatim>\<open>ValueError\<close>.
\<close>

fun chart_rows ::
  "library \<Rightarrow> dataframe \<Rightarrow> string list \<Rightarrow> (string \<times> pyfloat) list \<Rightarrow> exn + (string \<times> pyfloat) list"
where
  "chart_rows L df [] acc = Inr acc"
| "chart_rows L df (col # rest) acc =
     bind (series_of ValueError df col)
          (\<lambda>s. chart_rows L df rest
                 (if notnull_float (series_mean L s) then acc @ [(col, series_mean L s)]
                  else acc))"

definition bar_chart :: "nat \<Rightarrow> chart" where
  "bar_chart n =
     \<lparr>kind = BarChart, chart_title = ''Average Values by Numeric Columns'',
      x_axis_title = Some ''Columns'', y_axis_title = Some ''Average Value'',
      chart_data = \<lparr>min_col = 2, min_row = 3, max_col = 2, max_row = 3 + n\<rparr>,
      chart_categories = \<lparr>min_col = 1, min_row = 4, max_col = 1, max_row = 3 + n\<rparr>,
      anchor = ''D3''\<rparr>"

definition charts_body :: "(string \<times> pyfloat) list \<Rightarrow> worksheet \<Rightarrow> exn + worksheet" where
  "charts_body rows =
     run_all
       [set_value 3 1 (PStr ''Column''),
        set_value 3 2 (PStr ''Average Value''),
        for_each (\<lambda>(i, (col, v)) w. bind (set_value i 1 (PStr col) w) (set_value i 2 (PFloat v)))
                 (enumerate 4 rows),
        returns (\<lambda>w. w\<lparr>charts := charts w @ [bar_chart (length rows)]\<rparr>)]"

definition create_charts_sheet :: "library \<Rightarrow> workbook \<Rightarrow> dataframe \<Rightarrow> exn + workbook" where
  "create_charts_sheet L wb df =
     bind (create_sheet L wb ''Data Visualizations'')
       (\<lambda>ws0. bind (set_value 1 1 (PStr ''Data Visualizations'') ws0)
       (\<lambda>ws1.
          let ws = set_font 1 1 (title_font 16) ws1
          in if 0 < length (numeric_cols df)
             then bind (chart_rows L df (take 10 (numeric_cols df)) [])
                    (\<lambda>rows. if rows \<noteq> []
                            then bind (charts_body rows ws) (\<lambda>ws'. Inr (add_sheet wb ws'))
                            else Inr (add_sheet wb ws))
             else Inr (add_sheet wb ws)))"

subsection \<open>\<^verbatim>\<open>create_filtered_sheets\<close>\<close>

text \<open>
  The loop over \<^verbatim>\<open>value_counts.items()\<close>: the value, its count, and then the
  percentage, whose division raises on a zero divisor.
\<close>

fun analysis_rows ::
  "library \<Rightarrow> nat \<Rightarrow> (nat \<times> pyval \<times> nat) list \<Rightarrow> worksheet \<Rightarrow> exn + worksheet" where
  "analysis_rows L tot [] ws = Inr ws"
| "analysis_rows L tot ((i, (v, n)) # rest) ws =
     bind (set_value i 1 (PStr (py_str L v)) ws)
       (\<lambda>ws1. bind (set_value i 2 (PInt (int n)) ws1)
       (\<lambda>ws2. bind (py_true_divide (int n) (int tot))
       (\<lambda>q. bind (set_value i 3 (PStr (percent_str q)) ws2)
              (analysis_rows L tot rest))))"

definition pie_chart :: "string \<Rightarrow> nat \<Rightarrow> chart" where
  "pie_chart col n =
     \<lparr>kind = PieChart, chart_title = ''Distribution of '' @ col,
      x_axis_title = None, y_axis_title = None,
      chart_data = \<lparr>min_col = 2, min_row = 3, max_col = 2, max_row = 3 + n\<rparr>,
      chart_categories = \<lparr>min_col = 1, min_row = 4, max_col = 1, max_row = 3 + n\<rparr>,
      anchor = ''E3''\<rparr>"

definition analysis_head :: "string \<Rightarrow> worksheet \<Rightarrow> exn + worksheet" where
  "analysis_head col =
     run_all
       [set_value 1 1 (PStr (''Analysis: '' @ col)),
        returns (set_font 1 1 (title_font 14)),
        set_value 3 1 (PStr ''Value''),
        set_value 3 2 (PStr ''Count''),
        set_value 3 3 (PStr ''Percentage''),
        returns (update_range summary_header_style [3] [1, 2, 3])]"

definition analysis_sheet ::
  "library \<Rightarrow> dataframe \<Rightarrow> workbook \<Rightarrow> string \<Rightarrow> (pyval \<times> nat) list \<Rightarrow> exn + workbook" where
  "analysis_sheet L df wb col vc =
     bind (create_sheet L wb (take 25 col @ ''_Analysis''))
       (\<lambda>ws. bind (analysis_head col ws)
       (\<lambda>ws0. bind (analysis_rows L (df_len df) (enumerate 4 vc) ws0)
       (\<lambda>ws1. Inr (add_sheet wb
                   (if length vc \<le> 10
                    then ws1\<lparr>charts := charts ws1 @ [pie_chart col (length vc)]\<rparr>
                    else ws1)))))"

text \<open>
  The loop over the first five text columns. On a label that several columns carry,
  \<^verbatim>\<open>self.data[col].unique\<close> raises \<^verbatim>\<open>AttributeError\<close>.
\<close>

fun filtered_loop :: "library \<Rightarrow> dataframe \<Rightarrow> string list \<Rightarrow> workbook \<Rightarrow> exn + workbook" where
  "filtered_loop L df [] wb = Inr wb"
| "filtered_loop L df (col # rest) wb =
     bind (series_of AttributeError df col)
          (\<lambda>s. if length (unique s) \<le> 20
                then (if 1 < length (value_counts s)
                      then bind (analysis_sheet L df wb col (value_counts s))
                                (filtered_loop L df rest)
                      else filtered_loop L df rest wb)
                else filtered_loop L df rest wb)"

definition create_filtered_sheets :: "library \<Rightarrow> workbook \<Rightarrow> dataframe \<Rightarrow> exn + workbook" where
  "create_filtered_sheets L wb df = filtered_loop L df (take 5 (categorical_cols df)) wb"

subsection \<open>\<^verbatim>\<open>finalize_workbook\<close>, saving, and \<^verbatim>\<open>convert\<close>\<close>

definition finalize_workbook :: "string \<Rightarrow> converter \<Rightarrow> workbook \<Rightarrow> workbook" where
  "finalize_workbook stamp self wb =
     (if 0 < length (worksheets wb) then wb\<lparr>active := 0\<rparr> else wb)
       \<lparr>prop_title := Some ''Data Analysis Report'',
        prop_subject := Some ''Comprehensive data analysis from CSV'',
        prop_creator := Some ''CSV to Excel Converter'',
        prop_description :=
          Some (''Generated from '' @ basename (csv_file_path self) @ '' on '' @ stamp)\<rparr>"

text \<open>
  \<^verbatim>\<open>workbook.save(path)\<close>: the file at the path becomes the workbook, or the library
  raises and leaves at the path what it says.
\<close>

definition save :: "library \<Rightarrow> workbook \<Rightarrow> string \<Rightarrow> filesystem \<Rightarrow> exn option \<times> filesystem" where
  "save L wb path fs =
     (case save_failure L wb path fs of
        None \<Rightarrow> (None, fs(path := Some (WorkbookFile wb)))
      | Some (e, left) \<Rightarrow> (Some e, fs(path := left)))"

text \<open>The stages of \<^verbatim>\<open>convert\<close> before the workbook is saved.\<close>

definition build_workbook ::
  "library \<Rightarrow> clock \<Rightarrow> converter \<Rightarrow> filesystem \<Rightarrow> exn + workbook" where
  "build_workbook L clk self fs =
     bind (load_data L fs (csv_file_path self)) (\<lambda>data.
     bind (create_main_data_sheet L create_workbook data) (\<lambda>wb1.
     bind (create_summary_sheet L (summary_stamp clk) wb1 data) (\<lambda>wb2.
     bind (create_charts_sheet L wb2 data) (\<lambda>wb3.
     bind (create_filtered_sheets L wb3 data) (\<lambda>wb4.
     Inr (finalize_workbook (finalize_stamp clk) self wb4))))))"

text \<open>
  \<^verbatim>\<open>convert\<close>: the whole body stands in one \<^verbatim>\<open>try\<close>, and
  \<^verbatim>\<open>except Exception\<close> turns every exception into the result \<^verbatim>\<open>False\<close>. The
  result is the returned flag and the file system after the run (the messages printed
  on the way are not modelled).
\<close>

definition convert ::
  "library \<Rightarrow> clock \<Rightarrow> converter \<Rightarrow> filesystem \<Rightarrow> bool \<times> filesystem" where
  "convert L clk self fs =
     (case build_workbook L clk self fs of
        Inl e \<Rightarrow> (False, fs)
      | Inr wb \<Rightarrow>
          (case save L wb (output_file_path self) fs of
             (None, fs') \<Rightarrow> (True, fs')
           | (Some e, fs') \<Rightarrow> (False, fs')))"

section \<open>Sample inputs\<close>

text \<open>
  Concrete libraries, tables and file systems on which the model is evaluated below.
  \<open>sample_library df\<close> parses every existing file to the table \<open>df\<close>, whatever the
  encoding, finds no defined mean, keeps sheet titles and never fails to save.
\<close>

definition sample_library :: "dataframe \<Rightarrow> library" where
  "sample_library df =
     \<lparr>read_csv = (\<lambda>fs path enc. case fs path of None \<Rightarrow> Inl FileNotFoundError | Some f \<Rightarrow> Inr df),
      float_str = (\<lambda>q. ''0.0''),
      series_mean = (\<lambda>c. NaN),
      describe = (\<lambda>c st. NaN),
      avoid_duplicate_name = (\<lambda>names t. t),
      save_failure = (\<lambda>wb path fs. None)\<rparr>"




definition sample_fs :: filesystem where
  "sample_fs = (\<lambda>path. if path = ''data.txt'' then Some (RawFile ''A,B'') else None)"

definition sample_clock :: clock where
  "sample_clock = \<lparr>summary_stamp = ''2025-08-01 10:00:00'', finalize_stamp = ''2025-08-01''\<rparr>"

definition later_clock :: clock where
  "later_clock = \<lparr>summary_stamp = ''2025-08-02 11:30:00'', finalize_stamp = ''2025-08-02''\<rparr>"

text \<open>The table of the CSV with the header A,B and the rows (1, x) and (2, y).\<close>

definition table_ab :: dataframe where
  "table_ab =
     \<lparr>df_columns =
        [\<lparr>cname = ''A'', cdtype = Int64, cvalues = [PInt 1, PInt 2]\<rparr>,
         \<lparr>cname = ''B'', cdtype = Object, cvalues = [PStr ''x'', PStr ''y'']\<rparr>],
      df_len = 2\<rparr>"

text \<open>A table whose two labels become equal once the blanks around them are stripped.\<close>

definition table_blank_label :: dataframe where
  "table_blank_label =
     \<lparr>df_columns =
        [\<lparr>cname = ''a'', cdtype = Object, cvalues = [PStr ''x'']\<rparr>,
         \<lparr>cname = '' a'', cdtype = Object, cvalues = [PStr ''y'']\<rparr>],
      df_len = 1\<rparr>"

text \<open>A table with one text column and no numeric column.\<close>

definition table_text :: dataframe where
  "table_text =
     \<lparr>df_columns = [\<lparr>cname = ''city'', cdtype = Object, cvalues = [PStr ''Hue'', PStr ''Hanoi'']\<rparr>],
      df_len = 2\<rparr>"

text \<open>
  A text column with twenty distinct strings and a missing value, and one with a single
  string and a missing value.
\<close>

definition table_twenty_and_missing :: dataframe where
  "table_twenty_and_missing =
     \<lparr>df_columns =
        [\<lparr>cname = ''k'', cdtype = Object,
          cvalues = map (\<lambda>c. PStr [c]) ''abcdefghijklmnopqrst'' @ [PFloat NaN]\<rparr>],
      df_len = 21\<rparr>"

definition table_one_and_missing :: dataframe where
  "table_one_and_missing =
     \<lparr>df_columns = [\<lparr>cname = ''k'', cdtype = Object, cvalues = [PStr ''x'', PFloat NaN]\<rparr>],
      df_len = 2\<rparr>"

text \<open>
  A table of five rows with an empty column and a full one, and a table without rows.
\<close>

definition table_nulls :: dataframe where
  "table_nulls =
     \<lparr>df_columns =
        [\<lparr>cname = ''p'', cdtype = Float64,
          cvalues = [PFloat NaN, PFloat NaN, PFloat NaN, PFloat NaN, PFloat NaN]\<rparr>,
         \<lparr>cname = ''q'', cdtype = Int64, cvalues = [PInt 1, PInt 2, PInt 3, PInt 4, PInt 5]\<rparr>],
      df_len = 5\<rparr>"

definition table_no_rows :: dataframe where
  "table_no_rows =
     \<lparr>df_columns = [\<lparr>cname = ''A'', cdtype = Object, cvalues = []\<rparr>,
                    \<lparr>cname = ''B'', cdtype = Object, cvalues = []\<rparr>],
      df_len = 0\<rparr>"

text \<open>A table whose only label is longer than the cap of the main data sheet.\<close>

definition table_long_label :: dataframe where
  "table_long_label =
     \<lparr>df_columns =
        [\<lparr>cname = ''a_label_that_is_much_longer_than_the_cap_of_fifty_characters'',
          cdtype = Int64, cvalues = [PInt 7]\<rparr>],
      df_len = 1\<rparr>"

text \<open>The file with the header A,B and the rows (1, x) and (2, y).\<close>

definition ab_fs :: filesystem where
  "ab_fs =
     (\<lambda>path. if path = ''data.csv''
             then Some (RawFile (''A,B'' @ [CHR 0x0A] @ ''1,x'' @ [CHR 0x0A] @ ''2,y'' @ [CHR 0x0A]))
             else None)"

text \<open>A file with a control character (code 1) in a text value, and its table.\<close>

definition control_fs :: filesystem where
  "control_fs =
     (\<lambda>path. if path = ''data.csv''
             then Some (RawFile (''A,B'' @ [CHR 0x0A] @ ''1,a'' @ [CHR 0x01] @ ''b'' @ [CHR 0x0A]))
             else None)"

definition table_control_char :: dataframe where
  "table_control_char =
     \<lparr>df_columns =
        [\<lparr>cname = ''A'', cdtype = Int64, cvalues = [PInt 1]\<rparr>,
         \<lparr>cname = ''B'', cdtype = Object, cvalues = [PStr [CHR ''a'', CHR 0x01, CHR ''b'']]\<rparr>],
      df_len = 1\<rparr>"

section \<open>Auxiliary definitions\<close>

text \<open>
  The value that a cell holds once a value has been given to it, and the values that can
  be given to a cell; the table with every label and every value as a cell holds it.
\<close>

definition stored :: "pyval \<Rightarrow> pyval" where
  "stored v = (case v of PStr s \<Rightarrow> PStr (take 32767 s) | _ \<Rightarrow> v)"

definition writable_text :: "string \<Rightarrow> bool" where
  "writable_text s = (\<not> list_ex illegal_character (take 32767 s))"

definition writable :: "pyval \<Rightarrow> bool" where
  "writable v = (case v of PStr s \<Rightarrow> writable_text s | _ \<Rightarrow> True)"

definition stored_frame :: "dataframe \<Rightarrow> dataframe" where
  "stored_frame df =
     df\<lparr>df_columns :=
          map (\<lambda>c. c\<lparr>cname := take 32767 (cname c), cvalues := map stored (cvalues c)\<rparr>)
              (df_columns df)\<rparr>"

definition writable_frame :: "dataframe \<Rightarrow> bool" where
  "writable_frame df =
     list_all (\<lambda>c. writable_text (cname c) \<and> list_all writable (cvalues c)) (df_columns df)"

text \<open>
  The steps of the generators without their failures: \<open>put_value\<close> is what
  \<open>set_value\<close> does when it returns, \<open>append_stored\<close> what \<open>ws_append\<close> does
  with a row of stored values, and so on for the parts of the sheets. The statement
  \<open>refines f g\<close> says that \<open>f\<close>, when it returns, has done \<open>g\<close>, and
  \<open>always f g\<close> that \<open>f\<close> returns and has done \<open>g\<close>.
\<close>

definition refines :: "('a \<Rightarrow> exn + 'a) \<Rightarrow> ('a \<Rightarrow> 'a) \<Rightarrow> bool" where
  "refines f g = (\<forall>x y. f x = Inr y \<longrightarrow> y = g x)"

definition always :: "('a \<Rightarrow> exn + 'a) \<Rightarrow> ('a \<Rightarrow> 'a) \<Rightarrow> bool" where
  "always f g = (\<forall>x. f x = Inr (g x))"

definition apply_all :: "('a \<Rightarrow> 'a) list \<Rightarrow> 'a \<Rightarrow> 'a" where
  "apply_all fs x = fold (\<lambda>f. f) fs x"

definition put_value :: "nat \<Rightarrow> nat \<Rightarrow> pyval \<Rightarrow> worksheet \<Rightarrow> worksheet" where
  "put_value r c v = update_cell (\<lambda>x. x\<lparr>cvalue := stored v\<rparr>) r c"

definition append_stored :: "pyval list \<Rightarrow> worksheet \<Rightarrow> worksheet" where
  "append_stored row ws =
     (let r = current_row ws + 1
      in (fold (\<lambda>(j, v) w.
                  w\<lparr>cells := (cells w)((r, j) := Some (default_cell\<lparr>cvalue := v\<rparr>)),
                    hi_row := max (hi_row w) r, hi_col := max (hi_col w) j\<rparr>)
               (enumerate 1 row) ws)
         \<lparr>current_row := r\<rparr>)"

definition main_sheet_of :: "library \<Rightarrow> dataframe \<Rightarrow> worksheet \<Rightarrow> worksheet" where
  "main_sheet_of L df ws =
     format_main_sheet L (df_len df) (fold append_stored (dataframe_to_rows df) ws)"

definition summary_head_of :: "string \<Rightarrow> dataframe \<Rightarrow> worksheet \<Rightarrow> worksheet" where
  "summary_head_of stamp df =
     apply_all
       [put_value 1 1 (PStr ''Dataset Overview''),
        set_font 1 1 (title_font 16),
        put_value 3 1 (PStr ''Total Records:''),
        put_value 3 2 (PInt (int (df_len df))),
        put_value 4 1 (PStr ''Total Columns:''),
        put_value 4 2 (PInt (int (length (df_columns df)))),
        put_value 5 1 (PStr ''File Generated:''),
        put_value 5 2 (PStr stamp),
        put_value 7 1 (PStr ''Column Information''),
        set_font 7 1 (title_font 14),
        put_value 8 1 (PStr ''Column Name''),
        put_value 8 2 (PStr ''Data Type''),
        put_value 8 3 (PStr ''Non-Null Count''),
        put_value 8 4 (PStr ''Null Count''),
        put_value 8 5 (PStr ''Null Percentage''),
        update_range summary_header_style [8] [1, 2, 3, 4, 5]]"

definition stats_block_of :: "library \<Rightarrow> dataframe \<Rightarrow> worksheet \<Rightarrow> worksheet" where
  "stats_block_of L df =
     (let start_row = length (df_columns df) + 11
      in apply_all
           [put_value start_row 1 (PStr ''Numeric Columns Statistics''),
            set_font start_row 1 (title_font 14),
            fold (\<lambda>(i, header) w.
                    update_cell summary_header_style (start_row + 2) (i + 1)
                      (put_value (start_row + 2) (i + 1) (PStr header) w))
                 (enumerate 0 (''Statistic'' # numeric_cols df)),
            fold (\<lambda>(i, (st, label)) w.
                    fold (\<lambda>(j, col). put_value (start_row + 3 + i) (j + 2) (stat_cell L df col st))
                         (enumerate 0 (numeric_cols df))
                         (put_value (start_row + 3 + i) 1 (PStr label) w))
                 (enumerate 0 stat_index)])"




text \<open>
  The charts sheet as \<^verbatim>\<open>create_charts_sheet\<close> has it before it looks at the
  numeric columns: the title in A1, in bold at size 16.
\<close>

definition title_only_sheet :: "string \<Rightarrow> worksheet" where
  "title_only_sheet t =
     set_font 1 1 (title_font 16) (put_value 1 1 (PStr ''Data Visualizations'') (new_worksheet t))"

text \<open>
  The two tests of \<^verbatim>\<open>create_filtered_sheets\<close> on a column: at most 20 values in
  \<^verbatim>\<open>unique()\<close>, and more than one entry in \<^verbatim>\<open>value_counts()\<close>.
\<close>

definition analysis_gate :: "column \<Rightarrow> bool" where
  "analysis_gate s = (length (unique s) \<le> 20 \<and> 1 < length (value_counts s))"

text \<open>
  What one round of the loop of \<open>column_info\<close> writes for a column \<open>s\<close> in the row
  \<open>i\<close>, and the text of its null percentage.
\<close>

definition info_row :: "dataframe \<Rightarrow> nat \<Rightarrow> column \<Rightarrow> worksheet \<Rightarrow> worksheet" where
  "info_row df i s =
     apply_all
       [put_value i 1 (PStr (cname s)),
        put_value i 2 (PStr (dtype_str (cdtype s))),
        put_value i 3 (PInt (int (count s))),
        put_value i 4 (PInt (int (null_count s))),
        put_value i 5 (PStr (percent_str (np_true_divide (int (null_count s)) (int (df_len df)))))]"

text \<open>The summary sheet when \<^verbatim>\<open>create_summary_sheet\<close> returns.\<close>

definition summary_sheet_of :: "library \<Rightarrow> string \<Rightarrow> dataframe \<Rightarrow> worksheet \<Rightarrow> worksheet" where
  "summary_sheet_of L stamp df ws =
     (let ws1 = fold (\<lambda>(i, s). info_row df i s) (enumerate 9 (df_columns df))
                  (summary_head_of stamp df ws)
      in auto_adjust_widths L 30
           (if 0 < length (numeric_cols df) then stats_block_of L df ws1 else ws1))"

definition null_percentage :: "dataframe \<Rightarrow> column \<Rightarrow> string" where
  "null_percentage df s = percent_str (np_true_divide (int (null_count s)) (int (df_len df)))"

text \<open>An update that leaves the rows above \<open>k\<close> as they are.\<close>

definition keeps_above :: "nat \<Rightarrow> (worksheet \<Rightarrow> worksheet) \<Rightarrow> bool" where
  "keeps_above k g = (\<forall>ws r c. r < k \<longrightarrow> get_cell (g ws) r c = get_cell ws r c)"

text \<open>
  A two-decimal percentage: digits, a point, two digits and the percent sign.
\<close>

definition is_digit :: "char \<Rightarrow> bool" where
  "is_digit c = (c \<in> set ''0123456789'')"

definition two_decimal_percent :: "string \<Rightarrow> bool" where
  "two_decimal_percent s =
     (case rev s of
        p # d2 # d1 # dot # ds \<Rightarrow>
          p = CHR ''%'' \<and> is_digit d2 \<and> is_digit d1 \<and> dot = CHR ''.''
          \<and> ds \<noteq> [] \<and> list_all is_digit ds
      | _ \<Rightarrow> False)"

text \<open>A sheet in use: it has a cell, and no cell lies below the current row.\<close>

definition ws_used :: "worksheet \<Rightarrow> bool" where
  "ws_used ws = (1 \<le> hi_row ws \<and> 1 \<le> hi_col ws \<and> hi_row ws \<le> current_row ws)"

text \<open>
  The length of the longest text among \<^verbatim>\<open>str(cell.value)\<close> over the cells of the
  column \<open>j\<close> in the rows 1 to \<open>max_row\<close>; a cell without a value gives \<^verbatim>\<open>None\<close>,
  of length 4.
\<close>

definition column_max_length :: "library \<Rightarrow> worksheet \<Rightarrow> nat \<Rightarrow> nat" where
  "column_max_length L ws j =
     Max ((\<lambda>r. length (py_str L (cvalue (get_cell ws r j)))) ` {1..ws_max_row ws})"

text \<open>
  Two sheets that differ at most in the value of B5 (and in styles and widths): the same
  title, the same extent, and the same value in every other cell. A change of a cell is
  a \<open>value_fun\<close> when the new value depends on the old value only, and a step
  \<open>keeps_same\<close> when it takes two such sheets to two such sheets.
\<close>

definition same_but_B5 :: "worksheet \<Rightarrow> worksheet \<Rightarrow> bool" where
  "same_but_B5 w1 w2 =
     (title w1 = title w2 \<and> hi_row w1 = hi_row w2 \<and> hi_col w1 = hi_col w2
      \<and> current_row w1 = current_row w2
      \<and> (\<forall>pos. pos \<noteq> (5, 2) \<longrightarrow>
             map_option cvalue (cells w1 pos) = map_option cvalue (cells w2 pos)))"

definition value_fun :: "(cell \<Rightarrow> cell) \<Rightarrow> bool" where
  "value_fun f = (\<forall>x y. cvalue x = cvalue y \<longrightarrow> cvalue (f x) = cvalue (f y))"

definition keeps_same :: "(worksheet \<Rightarrow> worksheet) \<Rightarrow> bool" where
  "keeps_same g = (\<forall>w1 w2. same_but_B5 w1 w2 \<longrightarrow> same_but_B5 (g w1) (g w2))"

text \<open>The loop of \<^verbatim>\<open>ws.append\<close> over the values of the row.\<close>

definition put_row :: "('a \<Rightarrow> cell) \<Rightarrow> nat \<Rightarrow> nat \<Rightarrow> 'a list \<Rightarrow> worksheet \<Rightarrow> worksheet" where
  "put_row mk r n xs ws =
     fold (\<lambda>(j, v) w. w\<lparr>cells := (cells w)((r, j) := Some (mk v)),
                         hi_row := max (hi_row w) r, hi_col := max (hi_col w) j\<rparr>)
          (enumerate n xs) ws"

section \<open>Basic facts\<close>

lemma bind_Inl [simp]: "bind (Inl e) f = Inl e"
  by (simp add: bind_def)

lemma bind_Inr [simp]: "bind (Inr x) f = f x"
  by (simp add: bind_def)

lemma bind_eq_Inr: "bind m f = Inr y \<longleftrightarrow> (\<exists>x. m = Inr x \<and> f x = Inr y)"
  by (cases m) simp_all

lemma returns_simp [simp]: "returns g x = Inr (g x)"
  by (simp add: returns_def)

subsection \<open>Values given to cells\<close>

lemma bind_value_cases:
  "bind_value v = (if writable v then Inr (stored v) else Inl IllegalCharacterError)"
  by (cases v) (simp_all add: bind_value_def check_string_def writable_def writable_text_def
      stored_def)

lemma set_value_cases:
  "set_value r c v ws
     = (if writable v then Inr (put_value r c v ws) else Inl IllegalCharacterError)"
  by (simp add: set_value_def bind_value_cases put_value_def)

lemma set_value_Inr:
  "set_value r c v ws = Inr ws' \<longleftrightarrow> writable v \<and> ws' = put_value r c v ws"
  by (auto simp: set_value_cases)

lemma writable_simps [simp]:
  "writable PNone" "writable (PBool b)" "writable (PInt i)" "writable (PFloat x)"
  by (simp_all add: writable_def)

lemma stored_simps [simp]:
  "stored PNone = PNone" "stored (PBool b) = PBool b" "stored (PInt i) = PInt i"
  "stored (PFloat x) = PFloat x" "stored (PStr s) = PStr (take 32767 s)"
  by (simp_all add: stored_def)

lemma writable_legal: "list_all (\<lambda>c. \<not> illegal_character c) s \<Longrightarrow> writable (PStr s)"
proof -
  assume a: "list_all (\<lambda>c. \<not> illegal_character c) s"
  have "set (take 32767 s) \<subseteq> set s" by (rule set_take_subset)
  with a show ?thesis
    by (auto simp: writable_def writable_text_def list_all_iff list_ex_iff)
qed

lemma writable_append:
  "list_all (\<lambda>c. \<not> illegal_character c) p \<Longrightarrow> writable (PStr s) \<Longrightarrow> writable (PStr (p @ s))"
proof -
  assume p: "list_all (\<lambda>c. \<not> illegal_character c) p" and s: "writable (PStr s)"
  have "set (take (32767 - length p) s) \<subseteq> set (take 32767 s)"
    by (rule set_take_subset_set_take) simp
  with p s show ?thesis
    by (auto simp: writable_def writable_text_def list_all_iff list_ex_iff dest: in_set_takeD)
qed

subsection \<open>Steps that return\<close>

lemma refines_set_value [simp]: "refines (set_value r c v) (put_value r c v)"
  by (simp add: refines_def set_value_Inr)

lemma always_set_value: "writable v \<Longrightarrow> always (set_value r c v) (put_value r c v)"
  by (simp add: always_def set_value_cases)

lemma refines_returns [simp]: "refines (returns g) g"
  by (simp add: refines_def)

lemma always_returns [simp]: "always (returns g) g"
  by (simp add: always_def)

lemma refines_bind:
  "refines f g \<Longrightarrow> refines f' g' \<Longrightarrow> refines (\<lambda>x. bind (f x) f') (\<lambda>x. g' (g x))"
  by (auto simp: refines_def bind_eq_Inr)

lemma always_bind:
  "always f g \<Longrightarrow> always f' g' \<Longrightarrow> always (\<lambda>x. bind (f x) f') (\<lambda>x. g' (g x))"
  by (simp add: always_def)

lemma refines_run_all:
  "list_all2 refines fs gs \<Longrightarrow> refines (run_all fs) (apply_all gs)"
proof (induction fs gs rule: list_all2_induct)
  case Nil
  then show ?case by (simp add: refines_def apply_all_def)
next
  case (Cons f fs g gs)
  have "run_all (f # fs) = (\<lambda>x. bind (f x) (run_all fs))" by (intro ext) simp
  moreover have "apply_all (g # gs) = (\<lambda>x. apply_all gs (g x))"
    by (intro ext) (simp add: apply_all_def)
  ultimately show ?case using refines_bind[OF Cons.hyps(1) Cons.IH] by simp
qed

lemma always_run_all:
  "list_all2 always fs gs \<Longrightarrow> always (run_all fs) (apply_all gs)"
proof (induction fs gs rule: list_all2_induct)
  case Nil
  then show ?case by (simp add: always_def apply_all_def)
next
  case (Cons f fs g gs)
  have "run_all (f # fs) = (\<lambda>x. bind (f x) (run_all fs))" by (intro ext) simp
  moreover have "apply_all (g # gs) = (\<lambda>x. apply_all gs (g x))"
    by (intro ext) (simp add: apply_all_def)
  ultimately show ?case using always_bind[OF Cons.hyps(1) Cons.IH] by simp
qed

lemma refines_for_each:
  "(\<And>y. y \<in> set ys \<Longrightarrow> refines (f y) (g y)) \<Longrightarrow> refines (for_each f ys) (fold g ys)"
proof (induction ys)
  case Nil
  then show ?case by (simp add: refines_def)
next
  case (Cons y ys)
  then have a: "refines (f y) (g y)" and b: "refines (for_each f ys) (fold g ys)" by simp_all
  have "for_each f (y # ys) = (\<lambda>x. bind (f y x) (for_each f ys))" by (intro ext) simp
  moreover have "fold g (y # ys) = (\<lambda>x. fold g ys (g y x))" by (intro ext) simp
  ultimately show ?case using refines_bind[OF a b] by simp
qed

lemma always_for_each:
  "(\<And>y. y \<in> set ys \<Longrightarrow> always (f y) (g y)) \<Longrightarrow> always (for_each f ys) (fold g ys)"
proof (induction ys)
  case Nil
  then show ?case by (simp add: always_def)
next
  case (Cons y ys)
  then have a: "always (f y) (g y)" and b: "always (for_each f ys) (fold g ys)" by simp_all
  have "for_each f (y # ys) = (\<lambda>x. bind (f y x) (for_each f ys))" by (intro ext) simp
  moreover have "fold g (y # ys) = (\<lambda>x. fold g ys (g y x))" by (intro ext) simp
  ultimately show ?case using always_bind[OF a b] by simp
qed

lemma in_set_enumerate_snd: "x \<in> set (enumerate n xs) \<Longrightarrow> snd x \<in> set xs"
  by (induction xs arbitrary: n) auto

lemma add_sheet_inject: "add_sheet wb ws = add_sheet wb ws' \<Longrightarrow> ws = ws'"
proof -
  assume "add_sheet wb ws = add_sheet wb ws'"
  then have "worksheets (add_sheet wb ws) = worksheets (add_sheet wb ws')" by simp
  then show ?thesis by (simp add: add_sheet_def)
qed

lemma refinesD: "refines f g \<Longrightarrow> f x = Inr y \<Longrightarrow> y = g x"
  by (simp add: refines_def)

lemma alwaysD: "always f g \<Longrightarrow> f x = Inr (g x)"
  by (simp add: always_def)

subsection \<open>The parts of the sheets when they return\<close>

lemmas writable_eval = writable_def writable_text_def illegal_character_def

lemma summary_head_refines: "refines (summary_head stamp df) (summary_head_of stamp df)"
  unfolding summary_head_def summary_head_of_def
  by (rule refines_run_all) simp

lemma summary_head_always:
  "writable (PStr stamp) \<Longrightarrow> always (summary_head stamp df) (summary_head_of stamp df)"
  unfolding summary_head_def summary_head_of_def
  by (rule always_run_all) (simp add: always_set_value writable_eval)

section \<open>The default output path\<close>

lemma py_in_iff: "py_in old s \<longleftrightarrow> (\<exists>u v. s = u @ old @ v)"
proof
  assume "py_in old s"
  then obtain i where i: "take (length old) (drop i s) = old"
    by (auto simp: py_in_def list_ex_iff)
  have "s = take i s @ drop i s" by simp
  also have "drop i s = take (length old) (drop i s) @ drop (length old) (drop i s)"
    by (simp only: append_take_drop_id)
  finally have "s = take i s @ old @ drop (length old) (drop i s)" using i by simp
  then show "\<exists>u v. s = u @ old @ v" by blast
next
  assume "\<exists>u v. s = u @ old @ v"
  then obtain u v where s: "s = u @ old @ v" by blast
  have "take (length old) (drop (length u) s) = old" using s by simp
  moreover have "length u < length s + 1" using s by simp
  ultimately show "py_in old s"
    unfolding py_in_def list_ex_iff by (intro bexI[of _ "length u"]) auto
qed

lemma replace_from_match:
  "old \<noteq> [] \<Longrightarrow> take (length old) s = old \<Longrightarrow>
   replace_from old new s = new @ replace_from old new (drop (length old) s)"
  by (cases s) auto

lemma replace_from_nomatch:
  "take (length old) (c # cs) \<noteq> old \<Longrightarrow>
   replace_from old new (c # cs) = c # replace_from old new cs"
  by simp

lemma replace_from_absent:
  "\<not> (\<exists>u v. s = u @ old @ v) \<Longrightarrow> replace_from old new s = s"
proof (induction old new s rule: replace_from.induct)
  case (1 old new)
  then show ?case by simp
next
  case (2 old new c cs)
  have nomatch: "take (length old) (c # cs) \<noteq> old"
  proof
    assume "take (length old) (c # cs) = old"
    then have "c # cs = [] @ old @ drop (length old) (c # cs)"
      by (metis append_Nil append_take_drop_id)
    with "2.prems" show False by blast
  qed
  have "\<not> (\<exists>u v. cs = u @ old @ v)"
  proof
    assume "\<exists>u v. cs = u @ old @ v"
    then obtain u v where "cs = u @ old @ v" by blast
    then have "c # cs = (c # u) @ old @ v" by simp
    with "2.prems" show False by blast
  qed
  with 2 nomatch show ?case by simp
qed

text \<open>
  An occurrence of \<^verbatim>\<open>.csv\<close> cannot start inside a string and end inside a following
  \<^verbatim>\<open>.csv\<close>: the dot stands only at its first place.
\<close>

lemma csv_head:
  assumes "take 4 (u @ ''.csv'' @ v) = ''.csv''" "u \<noteq> []"
  shows "take 4 u = ''.csv''"
proof -
  have "length u \<noteq> 0" using assms(2) by simp
  then consider "length u = 1" | "length u = 2" | "length u = 3" | "4 \<le> length u"
    by arith
  then show ?thesis
  proof cases
    case 1 then obtain a where "u = [a]" by (cases u) auto
    with assms show ?thesis by simp
  next
    case 2 then obtain a b where "u = [a, b]"
      by (auto simp: length_Suc_conv numeral_2_eq_2)
    with assms show ?thesis by simp
  next
    case 3 then obtain a b c where "u = [a, b, c]"
      by (auto simp: length_Suc_conv numeral_3_eq_3)
    with assms show ?thesis by simp
  next
    case 4 with assms show ?thesis by simp
  qed
qed

lemma replace_from_csv_append:
  "replace_from ''.csv'' new (u @ ''.csv'' @ v)
     = replace_from ''.csv'' new u @ new @ replace_from ''.csv'' new v"
proof (induction u rule: length_induct)
  case (1 u)
  have l4: "length ''.csv'' = 4" by simp
  show ?case
  proof (cases u)
    case Nil
    have "replace_from ''.csv'' new (''.csv'' @ v) = new @ replace_from ''.csv'' new v"
      by (subst replace_from_match) simp_all
    with Nil show ?thesis by simp
  next
    case (Cons c cs)
    show ?thesis
    proof (cases "take 4 (u @ ''.csv'' @ v) = ''.csv''")
      case True
      have h: "take 4 u = ''.csv''" using csv_head[OF True] Cons by simp
      have "length (take 4 u) = 4" by (simp only: h) simp
      then have len: "4 \<le> length u" by simp
      have d: "drop 4 (u @ ''.csv'' @ v) = drop 4 u @ ''.csv'' @ v"
        using len by simp
      have "length (drop 4 u) < length u" using Cons by simp
      with 1 have IH: "replace_from ''.csv'' new (drop 4 u @ ''.csv'' @ v)
          = replace_from ''.csv'' new (drop 4 u) @ new @ replace_from ''.csv'' new v"
        by blast
      have "replace_from ''.csv'' new (u @ ''.csv'' @ v)
          = new @ replace_from ''.csv'' new (drop 4 (u @ ''.csv'' @ v))"
        using replace_from_match[of "''.csv''" "u @ ''.csv'' @ v" new] True
        by (simp only: l4) simp
      moreover have "replace_from ''.csv'' new u = new @ replace_from ''.csv'' new (drop 4 u)"
        using replace_from_match[of "''.csv''" u new] h by (simp only: l4) simp
      ultimately show ?thesis using IH d by simp
    next
      case False
      have nh: "take 4 u \<noteq> ''.csv''"
      proof
        assume h: "take 4 u = ''.csv''"
        have "length (take 4 u) = 4" by (simp only: h) simp
        then have "4 \<le> length u" by simp
        then have "take 4 (u @ ''.csv'' @ v) = take 4 u" by simp
        with h False show False by simp
      qed
      have "length cs < length u" using Cons by simp
      with 1 have IH: "replace_from ''.csv'' new (cs @ ''.csv'' @ v)
          = replace_from ''.csv'' new cs @ new @ replace_from ''.csv'' new v"
        by blast
      have "replace_from ''.csv'' new (c # (cs @ ''.csv'' @ v))
          = c # replace_from ''.csv'' new (cs @ ''.csv'' @ v)"
        using replace_from_nomatch[of "''.csv''" c "cs @ ''.csv'' @ v" new] False Cons
        by (simp only: l4) simp
      moreover have "replace_from ''.csv'' new (c # cs) = c # replace_from ''.csv'' new cs"
        using replace_from_nomatch[of "''.csv''" c cs new] nh Cons
        by (simp only: l4) simp
      ultimately show ?thesis using IH Cons by simp
    qed
  qed
qed

lemma convert_True:
  assumes "convert L clk self fs = (True, fs')"
  shows "\<exists>wb. build_workbook L clk self fs = Inr wb
              \<and> fs' = fs(output_file_path self := Some (WorkbookFile wb))"
  using assms
  by (auto simp: convert_def save_def split: sum.splits option.splits prod.splits)

text \<open>
  Claim C9. Without an explicit output path, the output path is the input path with
  every occurrence of \<^verbatim>\<open>.csv\<close> replaced by \<^verbatim>\<open>_comprehensive.xlsx\<close>, wherever it
  stands: the replacement distributes over every split of the path at an occurrence.
  For an input path in which \<^verbatim>\<open>.csv\<close> does not occur, the output path is the input
  path itself, and a run that succeeds leaves the workbook at the input path.
\<close>

theorem default_output_path:
  "output_file_path (init p None) = py_replace p ''.csv'' ''_comprehensive.xlsx''
   \<and> py_replace (u @ ''.csv'' @ v) ''.csv'' ''_comprehensive.xlsx''
       = py_replace u ''.csv'' ''_comprehensive.xlsx'' @ ''_comprehensive.xlsx''
         @ py_replace v ''.csv'' ''_comprehensive.xlsx''
   \<and> (\<not> py_in ''.csv'' p \<longrightarrow>
        output_file_path (init p None) = p
        \<and> (\<forall>L clk fs fs'. convert L clk (init p None) fs = (True, fs') \<longrightarrow>
              (\<exists>wb. fs' p = Some (WorkbookFile wb))))"
proof (intro conjI impI)
  show "output_file_path (init p None) = py_replace p ''.csv'' ''_comprehensive.xlsx''"
    by (simp add: init_def)
  show "py_replace (u @ ''.csv'' @ v) ''.csv'' ''_comprehensive.xlsx''
       = py_replace u ''.csv'' ''_comprehensive.xlsx'' @ ''_comprehensive.xlsx''
         @ py_replace v ''.csv'' ''_comprehensive.xlsx''"
    unfolding py_replace_def using replace_from_csv_append by simp
next
  assume "\<not> py_in ''.csv'' p"
  then have "\<not> (\<exists>u v. p = u @ ''.csv'' @ v)" by (simp add: py_in_iff)
  then have "replace_from ''.csv'' ''_comprehensive.xlsx'' p = p"
    by (rule replace_from_absent)
  then show same: "output_file_path (init p None) = p"
    by (simp add: init_def py_replace_def)
  show "\<forall>L clk fs fs'. convert L clk (init p None) fs = (True, fs') \<longrightarrow>
          (\<exists>wb. fs' p = Some (WorkbookFile wb))"
  proof (intro allI impI)
    fix L clk fs fs'
    assume "convert L clk (init p None) fs = (True, fs')"
    from convert_True[OF this] same show "\<exists>wb. fs' p = Some (WorkbookFile wb)" by auto
  qed
qed

theorem default_output_path_witness:
  "\<not> py_in ''.csv'' ''data.txt''
   \<and> output_file_path (init ''data.txt'' None) = ''data.txt''
   \<and> output_file_path (init ''done enriched.csv'' None) = ''done enriched_comprehensive.xlsx''
   \<and> py_replace ''a.csv.bak/b.csv'' ''.csv'' ''_comprehensive.xlsx''
       = ''a_comprehensive.xlsx.bak/b_comprehensive.xlsx''"
proof -
  have h: "\<not> py_in ''.csv'' ''data.txt''" by (simp add: py_in_def upt_rec)
  have a: "output_file_path (init ''data.txt'' None) = ''data.txt''"
    using default_output_path[of "''data.txt''"] h by blast
  have b: "output_file_path (init ''done enriched.csv'' None) = ''done enriched_comprehensive.xlsx''"
    using default_output_path[of "''done enriched.csv''"] by (simp add: py_replace_def)
  have c: "py_replace ''a.csv.bak/b.csv'' ''.csv'' ''_comprehensive.xlsx''
       = ''a_comprehensive.xlsx.bak/b_comprehensive.xlsx''"
    by (simp add: py_replace_def)
  from h a b c show ?thesis by blast
qed

section \<open>The loader\<close>




section \<open>The failure boundary of \<^verbatim>\<open>convert\<close>\<close>

text \<open>
  Claim C3. An exception in the loader or in a sheet generator ends the run: the later
  stages do not run, \<^verbatim>\<open>convert\<close> returns \<^verbatim>\<open>False\<close> and the file system is as
  it was, since the workbook is saved only after every stage before it has returned. (The
  workbook creation and the finalizer raise nothing in this model.) An exception while
  saving also gives \<^verbatim>\<open>False\<close>. \<^verbatim>\<open>convert\<close> returns \<^verbatim>\<open>True\<close> only when every
  stage has returned and the save has succeeded, and a run that changed the file system
  has built the whole workbook.
\<close>

theorem convert_failure_boundary:
  "(load_data L fs (csv_file_path self) = Inl e \<longrightarrow> convert L clk self fs = (False, fs))
   \<and> (\<forall>data. load_data L fs (csv_file_path self) = Inr data
          \<and> create_main_data_sheet L create_workbook data = Inl e
        \<longrightarrow> convert L clk self fs = (False, fs))
   \<and> (\<forall>data wb1. load_data L fs (csv_file_path self) = Inr data
          \<and> create_main_data_sheet L create_workbook data = Inr wb1
          \<and> create_summary_sheet L (summary_stamp clk) wb1 data = Inl e
        \<longrightarrow> convert L clk self fs = (False, fs))
   \<and> (\<forall>data wb1 wb2. load_data L fs (csv_file_path self) = Inr data
          \<and> create_main_data_sheet L create_workbook data = Inr wb1
          \<and> create_summary_sheet L (summary_stamp clk) wb1 data = Inr wb2
          \<and> create_charts_sheet L wb2 data = Inl e
        \<longrightarrow> convert L clk self fs = (False, fs))
   \<and> (\<forall>data wb1 wb2 wb3. load_data L fs (csv_file_path self) = Inr data
          \<and> create_main_data_sheet L create_workbook data = Inr wb1
          \<and> create_summary_sheet L (summary_stamp clk) wb1 data = Inr wb2
          \<and> create_charts_sheet L wb2 data = Inr wb3
          \<and> create_filtered_sheets L wb3 data = Inl e
        \<longrightarrow> convert L clk self fs = (False, fs))
   \<and> (\<forall>wb fs'. build_workbook L clk self fs = Inr wb
          \<and> save L wb (output_file_path self) fs = (Some e, fs')
        \<longrightarrow> convert L clk self fs = (False, fs'))
   \<and> (\<forall>fs'. convert L clk self fs = (True, fs') \<longrightarrow>
          (\<exists>data wb1 wb2 wb3 wb4.
              load_data L fs (csv_file_path self) = Inr data
            \<and> create_main_data_sheet L create_workbook data = Inr wb1
            \<and> create_summary_sheet L (summary_stamp clk) wb1 data = Inr wb2
            \<and> create_charts_sheet L wb2 data = Inr wb3
            \<and> create_filtered_sheets L wb3 data = Inr wb4
            \<and> save L (finalize_workbook (finalize_stamp clk) self wb4) (output_file_path self) fs
                = (None, fs')))
   \<and> (\<forall>b fs'. convert L clk self fs = (b, fs') \<and> fs' \<noteq> fs \<longrightarrow>
          (\<exists>wb. build_workbook L clk self fs = Inr wb))"
proof (intro conjI allI impI)
  show "convert L clk self fs = (False, fs)" if "load_data L fs (csv_file_path self) = Inl e"
    using that by (simp add: convert_def build_workbook_def)
  show "convert L clk self fs = (False, fs)"
    if "load_data L fs (csv_file_path self) = Inr data
        \<and> create_main_data_sheet L create_workbook data = Inl e" for data
    using that by (simp add: convert_def build_workbook_def)
  show "convert L clk self fs = (False, fs)"
    if "load_data L fs (csv_file_path self) = Inr data
        \<and> create_main_data_sheet L create_workbook data = Inr wb1
        \<and> create_summary_sheet L (summary_stamp clk) wb1 data = Inl e" for data wb1
    using that by (simp add: convert_def build_workbook_def)
  show "convert L clk self fs = (False, fs)"
    if "load_data L fs (csv_file_path self) = Inr data
        \<and> create_main_data_sheet L create_workbook data = Inr wb1
        \<and> create_summary_sheet L (summary_stamp clk) wb1 data = Inr wb2
        \<and> create_charts_sheet L wb2 data = Inl e" for data wb1 wb2
    using that by (simp add: convert_def build_workbook_def)
  show "convert L clk self fs = (False, fs)"
    if "load_data L fs (csv_file_path self) = Inr data
        \<and> create_main_data_sheet L create_workbook data = Inr wb1
        \<and> create_summary_sheet L (summary_stamp clk) wb1 data = Inr wb2
        \<and> create_charts_sheet L wb2 data = Inr wb3
        \<and> create_filtered_sheets L wb3 data = Inl e" for data wb1 wb2 wb3
    using that by (simp add: convert_def build_workbook_def)
  show "convert L clk self fs = (False, fs')"
    if "build_workbook L clk self fs = Inr wb
        \<and> save L wb (output_file_path self) fs = (Some e, fs')" for wb fs'
    using that by (simp add: convert_def)
  show "\<exists>data wb1 wb2 wb3 wb4.
              load_data L fs (csv_file_path self) = Inr data
            \<and> create_main_data_sheet L create_workbook data = Inr wb1
            \<and> create_summary_sheet L (summary_stamp clk) wb1 data = Inr wb2
            \<and> create_charts_sheet L wb2 data = Inr wb3
            \<and> create_filtered_sheets L wb3 data = Inr wb4
            \<and> save L (finalize_workbook (finalize_stamp clk) self wb4) (output_file_path self) fs
                = (None, fs')"
    if "convert L clk self fs = (True, fs')" for fs'
    using that
    by (auto simp: convert_def build_workbook_def bind_def
             split: sum.splits option.splits prod.splits)
  show "\<exists>wb. build_workbook L clk self fs = Inr wb"
    if "convert L clk self fs = (b, fs') \<and> fs' \<noteq> fs" for b fs'
    using that by (auto simp: convert_def split: sum.splits)
qed

text \<open>
  A run that fails in the summary sheet: two labels that are equal once stripped make
  \<^verbatim>\<open>self.data[col]\<close> a DataFrame.
\<close>

lemma strip_blank: "strip_columns table_blank_label = 
   \<lparr>df_columns =
        [\<lparr>cname = ''a'', cdtype = Object, cvalues = [PStr ''x'']\<rparr>,
         \<lparr>cname = ''a'', cdtype = Object, cvalues = [PStr ''y'']\<rparr>],
      df_len = 1\<rparr>"
  by (simp add: strip_columns_def table_blank_label_def py_strip_def py_isspace_def)

theorem convert_failure_boundary_witness:
  "load_data (sample_library table_blank_label) sample_fs ''data.txt''
     = Inr (strip_columns table_blank_label)
   \<and> (\<exists>wb1. create_main_data_sheet (sample_library table_blank_label) create_workbook
               (strip_columns table_blank_label) = Inr wb1
          \<and> create_summary_sheet (sample_library table_blank_label) (summary_stamp sample_clock)
               wb1 (strip_columns table_blank_label) = Inl AttributeError)
   \<and> convert (sample_library table_blank_label) sample_clock
        (init ''data.txt'' (Some ''out.xlsx'')) sample_fs = (False, sample_fs)"
proof -
  let ?L = "sample_library table_blank_label"
  let ?d = "strip_columns table_blank_label"
  have l: "load_data ?L sample_fs (csv_file_path (init ''data.txt'' (Some ''out.xlsx''))) = Inr ?d"
    by (simp add: load_data_def try_except_def sample_library_def sample_fs_def init_def)
  have "\<exists>ws. main_data_sheet ?L ?d (new_worksheet ''Complete Data'') = Inr ws"
    by (simp add: main_data_sheet_def strip_blank dataframe_to_rows_def ws_append_def
          bind_value_cases writable_eval)
  then obtain wb1 where m: "create_main_data_sheet ?L create_workbook ?d = Inr wb1"
    by (auto simp: create_main_data_sheet_def create_sheet_def valid_title_def
          invalid_title_chars_def sample_library_def sheetnames_def create_workbook_def)
  have w: "writable (PStr (summary_stamp sample_clock))"
    by (simp add: sample_clock_def writable_eval)
  have s: "create_summary_sheet ?L (summary_stamp sample_clock) wb1 ?d = Inl AttributeError"
    by (simp add: create_summary_sheet_def create_sheet_def valid_title_def
          invalid_title_chars_def alwaysD[OF summary_head_always[OF w]]
          strip_blank series_of_def enumerate_eq_zip upt_rec set_value_cases writable_eval)
  from convert_failure_boundary[of ?L sample_fs "init ''data.txt'' (Some ''out.xlsx'')"
      AttributeError sample_clock] l m s
  have "convert ?L sample_clock (init ''data.txt'' (Some ''out.xlsx'')) sample_fs
        = (False, sample_fs)" by blast
  moreover have "load_data ?L sample_fs ''data.txt'' = Inr ?d"
    using l by (simp add: init_def)
  ultimately show ?thesis using m s by blast
qed

section \<open>Worksheets\<close>

lemma get_cell_update_cell:
  "get_cell (update_cell f r c ws) r' c' =
     (if r' = r \<and> c' = c then f (get_cell ws r c) else get_cell ws r' c')"
  by (simp add: get_cell_def update_cell_def)

lemma cells_update_cell:
  "cells (update_cell f r c ws) pos =
     (if pos = (r, c) then Some (f (get_cell ws r c)) else cells ws pos)"
  by (simp add: update_cell_def)

lemma update_cell_fields [simp]:
  "title (update_cell f r c ws) = title ws"
  "hi_row (update_cell f r c ws) = max (hi_row ws) r"
  "hi_col (update_cell f r c ws) = max (hi_col ws) c"
  "current_row (update_cell f r c ws) = max (current_row ws) r"
  "column_width (update_cell f r c ws) = column_width ws"
  "tables (update_cell f r c ws) = tables ws"
  "charts (update_cell f r c ws) = charts ws"
  by (simp_all add: update_cell_def)

lemma new_worksheet_fields [simp]:
  "title (new_worksheet t) = t"
  "cells (new_worksheet t) pos = None"
  "hi_row (new_worksheet t) = 0"
  "hi_col (new_worksheet t) = 0"
  "current_row (new_worksheet t) = 0"
  "column_width (new_worksheet t) j = None"
  "tables (new_worksheet t) = []"
  "charts (new_worksheet t) = []"
  by (simp_all add: new_worksheet_def)

lemma get_cell_new [simp]: "get_cell (new_worksheet t) r c = default_cell"
  by (simp add: get_cell_def)

lemma valid_fixed_titles [simp]:
  "valid_title ''Complete Data''" "valid_title ''Data Summary''"
  "valid_title ''Data Visualizations''"
  by (simp_all add: valid_title_def invalid_title_chars_def)

lemma series_of_distinct:
  assumes "distinct (map cname (df_columns df))" "c \<in> set (df_columns df)"
  shows "series_of e df (cname c) = Inr c"
proof -
  have "filter (\<lambda>x. cname x = cname c) cs = [c]" if "distinct (map cname cs)" "c \<in> set cs" for cs
    using that
  proof (induction cs)
    case Nil
    then show ?case by simp
  next
    case (Cons a cs)
    show ?case
    proof (cases "a = c")
      case True
      have "filter (\<lambda>x. cname x = cname c) cs = []"
        using Cons.prems(1) True by (auto simp: filter_empty_conv) (metis imageI)
      with True show ?thesis by simp
    next
      case False
      with Cons.prems have "c \<in> set cs" "cname a \<noteq> cname c" by auto
      with Cons show ?thesis by simp
    qed
  qed
  from this[OF assms] show ?thesis by (simp add: series_of_def)
qed

lemma chart_rows_undefined:
  assumes "distinct (map cname (df_columns df))" "set cs \<subseteq> set (df_columns df)"
    "\<forall>c \<in> set cs. series_mean L c = NaN"
  shows "chart_rows L df (map cname cs) acc = Inr acc"
  using assms(2,3)
proof (induction cs)
  case Nil
  then show ?case by simp
next
  case (Cons c cs)
  then have "series_of ValueError df (cname c) = Inr c"
    using series_of_distinct[OF assms(1)] by simp
  with Cons show ?case by (simp add: notnull_float_def)
qed

section \<open>The charts sheet\<close>

lemma title_only_sheet_cells:
  "cells (title_only_sheet t) pos =
     (if pos = (1, 1)
      then Some (default_cell\<lparr>cvalue := PStr ''Data Visualizations'', cfont := title_font 16\<rparr>)
      else None)"
  by (simp add: title_only_sheet_def set_font_def put_value_def cells_update_cell
        get_cell_update_cell)

text \<open>
  Claim C5, as the code has it. When the table has no numeric column, or when the labels
  are distinct and none of the first ten numeric columns has a defined mean, the charts
  sheet generator adds the sheet \<^verbatim>\<open>Data Visualizations\<close> with one cell, the title in
  A1, and nothing else: no table of means, no chart.
\<close>

theorem charts_sheet_without_means:
  assumes "numeric_cols df = []
           \<or> (distinct (map cname (df_columns df))
              \<and> (\<forall>c \<in> set (take 10 (filter (\<lambda>c. is_number (cdtype c)) (df_columns df))).
                    series_mean L c = NaN))"
  shows "create_charts_sheet L wb df
           = Inr (add_sheet wb
                   (title_only_sheet (avoid_duplicate_name L (sheetnames wb) ''Data Visualizations'')))
         \<and> charts (title_only_sheet t) = []
         \<and> tables (title_only_sheet t) = []
         \<and> (\<forall>pos. cells (title_only_sheet t) pos \<noteq> None \<longleftrightarrow> pos = (1, 1))
         \<and> cvalue (get_cell (title_only_sheet t) 1 1) = PStr ''Data Visualizations''"
proof (intro conjI)
  let ?nc = "filter (\<lambda>c. is_number (cdtype c)) (df_columns df)"
  show "create_charts_sheet L wb df
           = Inr (add_sheet wb
                   (title_only_sheet (avoid_duplicate_name L (sheetnames wb) ''Data Visualizations'')))"
  proof (cases "numeric_cols df = []")
    case True
    then show ?thesis
      by (simp add: create_charts_sheet_def create_sheet_def title_only_sheet_def
            set_value_cases writable_eval)
  next
    case False
    with assms have d: "distinct (map cname (df_columns df))"
      and n: "\<forall>c \<in> set (take 10 ?nc). series_mean L c = NaN" by auto
    have "set (take 10 ?nc) \<subseteq> set (df_columns df)"
      using set_take_subset[of 10 ?nc] by auto
    from chart_rows_undefined[OF d this n]
    have "chart_rows L df (take 10 (numeric_cols df)) [] = Inr []"
      by (simp add: numeric_cols_def take_map)
    with False show ?thesis
      by (simp add: create_charts_sheet_def create_sheet_def title_only_sheet_def
            set_value_cases writable_eval)
  qed
  show "charts (title_only_sheet t) = []" "tables (title_only_sheet t) = []"
    by (simp_all add: title_only_sheet_def set_font_def put_value_def)
  show "\<forall>pos. cells (title_only_sheet t) pos \<noteq> None \<longleftrightarrow> pos = (1, 1)"
    by (simp add: title_only_sheet_cells)
  show "cvalue (get_cell (title_only_sheet t) 1 1) = PStr ''Data Visualizations''"
    by (simp add: get_cell_def title_only_sheet_cells)
qed

theorem charts_sheet_without_means_witness:
  "create_charts_sheet (sample_library table_ab) create_workbook table_ab
     = Inr (add_sheet create_workbook (title_only_sheet ''Data Visualizations''))
   \<and> numeric_cols table_ab = [''A'']"
proof -
  have "distinct (map cname (df_columns table_ab))
        \<and> (\<forall>c \<in> set (take 10 (filter (\<lambda>c. is_number (cdtype c)) (df_columns table_ab))).
              series_mean (sample_library table_ab) c = NaN)"
    by (simp add: table_ab_def sample_library_def)
  then have "create_charts_sheet (sample_library table_ab) create_workbook table_ab
     = Inr (add_sheet create_workbook
             (title_only_sheet
                (avoid_duplicate_name (sample_library table_ab) (sheetnames create_workbook)
                   ''Data Visualizations'')))"
    using charts_sheet_without_means[of table_ab "sample_library table_ab" create_workbook]
    by blast
  moreover have "numeric_cols table_ab = [''A'']"
    by (simp add: numeric_cols_def table_ab_def is_number_def)
  ultimately show ?thesis by (simp add: sample_library_def)
qed

text \<open>
  The claim as stated fails: on a table without numeric columns the sheet is not empty,
  its cell A1 holds the title.
\<close>

theorem charts_sheet_title_written:
  "numeric_cols table_text = []
   \<and> create_charts_sheet (sample_library table_text) create_workbook table_text
       = Inr (add_sheet create_workbook (title_only_sheet ''Data Visualizations''))
   \<and> map_option cvalue (cells (title_only_sheet ''Data Visualizations'') (1, 1))
       = Some (PStr ''Data Visualizations'')"
proof -
  have a: "numeric_cols table_text = []"
    by (simp add: numeric_cols_def table_text_def is_number_def)
  have b: "create_charts_sheet (sample_library table_text) create_workbook table_text
       = Inr (add_sheet create_workbook (title_only_sheet ''Data Visualizations''))"
    by (simp add: a create_charts_sheet_def create_sheet_def sample_library_def sheetnames_def
          create_workbook_def title_only_sheet_def set_value_cases writable_eval)
  have c: "map_option cvalue (cells (title_only_sheet ''Data Visualizations'') (1, 1))
       = Some (PStr ''Data Visualizations'')"
    by (simp add: title_only_sheet_cells)
  from a b c show ?thesis by blast
qed

section \<open>The analysis sheets\<close>

lemma length_distinct_in_order: "length (distinct_in_order xs) = card (set xs)"
  by (simp add: distinct_in_order_def length_remdups_card_conv)

lemma length_unique: "length (unique s) = card (set (cvalues s))"
  by (simp add: unique_def length_distinct_in_order)

lemma length_value_counts:
  "length (value_counts s) = card {v \<in> set (cvalues s). \<not> isnull v}"
  by (simp add: value_counts_def Let_def length_distinct_in_order)

lemma analysis_gate_iff:
  "analysis_gate s \<longleftrightarrow>
     2 \<le> card {v \<in> set (cvalues s). \<not> isnull v} \<and> card (set (cvalues s)) \<le> 20"
  by (auto simp: analysis_gate_def length_unique length_value_counts)

lemma series_of_Inr_self:
  assumes "c \<in> set (df_columns df)" "series_of e df (cname c) = Inr s"
  shows "s = c"
proof -
  let ?m = "filter (\<lambda>x. cname x = cname c) (df_columns df)"
  have "?m = [s]" using assms(2)
    by (auto simp: series_of_def split: list.splits)
  moreover have "c \<in> set ?m" using assms(1) by simp
  ultimately show ?thesis by simp
qed

lemma get_cell_charts_update [simp]: "get_cell (ws\<lparr>charts := x\<rparr>) r c = get_cell ws r c"
  by (simp add: get_cell_def)


lemma digit_char_digit: "d < 10 \<Longrightarrow> is_digit (digit_char d)"
  unfolding is_digit_def digit_char_def by (rule nth_mem) simp

lemma str_nat_digits: "str_nat n \<noteq> [] \<and> list_all is_digit (str_nat n)"
proof (induction n rule: str_nat.induct)
  case (1 n)
  show ?case
  proof (cases "n < 10")
    case True
    then show ?thesis by (simp add: str_nat.simps[of n] digit_char_digit)
  next
    case False
    with 1 show ?thesis by (simp add: str_nat.simps[of n] digit_char_digit)
  qed
qed

lemma digit_legal: "is_digit c \<Longrightarrow> \<not> illegal_character c"
  by (auto simp: is_digit_def illegal_character_def)

lemma format_2f_legal: "list_all (\<lambda>c. \<not> illegal_character c) (format_2f x)"
proof (cases x)
  case (Fin q)
  define n where "n = nat (round_half_even (\<bar>q\<bar> * 100))"
  have d: "list_all (\<lambda>c. \<not> illegal_character c) (str_nat (n div 100))"
    using str_nat_digits[of "n div 100"] by (auto simp: list_all_iff digit_legal)
  have "n mod 100 div 10 < 10" "n mod 10 < 10" by simp_all
  then have "\<not> illegal_character (digit_char (n mod 100 div 10))"
    "\<not> illegal_character (digit_char (n mod 10))"
    using digit_legal[OF digit_char_digit] by blast+
  with d show ?thesis
    by (simp add: Fin format_2f_def Let_def n_def[symmetric] illegal_character_def)
qed (simp_all add: format_2f_def illegal_character_def)

lemma percent_writable: "writable (PStr (percent_str x))"
proof -
  have "\<not> illegal_character (CHR ''%'')" by (simp add: illegal_character_def)
  with format_2f_legal[of "times_100 x"]
  have "list_all (\<lambda>c. \<not> illegal_character c) (percent_str x)"
    by (simp add: percent_str_def)
  then show ?thesis by (rule writable_legal)
qed

lemma put_value_other:
  "r' \<noteq> r \<or> c' \<noteq> c \<Longrightarrow> get_cell (put_value r c v ws) r' c' = get_cell ws r' c'"
  by (auto simp: put_value_def get_cell_update_cell)

lemma analysis_rows_keeps:
  assumes "analysis_rows L n rows ws = Inr ws'" "\<forall>x \<in> set rows. fst x \<noteq> r"
  shows "get_cell ws' r c = get_cell ws r c"
  using assms
proof (induction rows arbitrary: ws)
  case Nil
  then show ?case by simp
next
  case (Cons x rows)
  obtain i v k where x: "x = (i, v, k)" by (cases x) auto
  from Cons.prems(1) obtain q where
    rest: "analysis_rows L n rows
                 (put_value i 3 (PStr (percent_str q))
                    (put_value i 2 (PInt (int k)) (put_value i 1 (PStr (py_str L v)) ws))) = Inr ws'"
    unfolding x by (auto simp: bind_eq_Inr set_value_Inr)
  have "i \<noteq> r" using Cons.prems(2) x by simp
  with Cons.IH[OF rest] Cons.prems(2) show ?case
    by (simp add: put_value_other)
qed

lemma analysis_head_A1:
  assumes "analysis_head col ws = Inr ws0"
  shows "cvalue (get_cell ws0 1 1) = PStr (take 32767 (''Analysis: '' @ col))"
  using assms
  by (auto simp: analysis_head_def bind_eq_Inr set_value_Inr put_value_def set_font_def
        update_range_def get_cell_update_cell)

lemma analysis_sheet_Inr:
  assumes "analysis_sheet L df wb col vc = Inr wb'"
  shows "\<exists>ws. wb' = add_sheet wb ws
            \<and> cvalue (get_cell ws 1 1) = PStr (take 32767 (''Analysis: '' @ col))"
proof -
  from assms obtain ws ws0 ws1 where
    ws0: "analysis_head col ws = Inr ws0"
    and ws1: "analysis_rows L (df_len df) (enumerate 4 vc) ws0 = Inr ws1"
    and wb': "wb' = add_sheet wb (if length vc \<le> 10
                           then ws1\<lparr>charts := charts ws1 @ [pie_chart col (length vc)]\<rparr>
                           else ws1)"
    unfolding analysis_sheet_def by (auto simp: bind_eq_Inr)
  have "\<forall>x \<in> set (enumerate 4 vc). fst x \<noteq> 1"
    by (auto simp: in_set_enumerate_eq)
  from analysis_rows_keeps[OF ws1 this]
  have "cvalue (get_cell ws1 1 1) = PStr (take 32767 (''Analysis: '' @ col))"
    using analysis_head_A1[OF ws0] by simp
  with wb' show ?thesis by auto
qed

lemma filtered_loop_sheets:
  assumes "set cs \<subseteq> set (df_columns df)" "filtered_loop L df (map cname cs) wb = Inr wb'"
  shows "\<exists>new. worksheets wb' = worksheets wb @ new
           \<and> map (\<lambda>ws. cvalue (get_cell ws 1 1)) new
             = map (\<lambda>c. PStr (take 32767 (''Analysis: '' @ cname c))) (filter analysis_gate cs)"
  using assms
proof (induction cs arbitrary: wb)
  case Nil
  then show ?case by simp
next
  case (Cons c cs)
  from Cons.prems(2) obtain s where s: "series_of AttributeError df (cname c) = Inr s"
    by (cases "series_of AttributeError df (cname c)") auto
  have sc: "s = c" using series_of_Inr_self[OF _ s] Cons.prems(1) by simp
  have sub: "set cs \<subseteq> set (df_columns df)" using Cons.prems(1) by simp
  show ?case
  proof (cases "analysis_gate c")
    case False
    then have "filtered_loop L df (map cname cs) wb = Inr wb'"
      using Cons.prems(2) s sc by (auto simp: analysis_gate_def split: if_splits)
    from Cons.IH[OF sub this] False show ?thesis by simp
  next
    case True
    then have step: "bind (analysis_sheet L df wb (cname c) (value_counts c))
                       (filtered_loop L df (map cname cs)) = Inr wb'"
      using Cons.prems(2) s sc by (simp add: analysis_gate_def)
    then obtain wb1 where wb1: "analysis_sheet L df wb (cname c) (value_counts c) = Inr wb1"
      and rest: "filtered_loop L df (map cname cs) wb1 = Inr wb'"
      by (cases "analysis_sheet L df wb (cname c) (value_counts c)") auto
    from analysis_sheet_Inr[OF wb1] obtain ws where ws: "wb1 = add_sheet wb ws"
      "cvalue (get_cell ws 1 1) = PStr (take 32767 (''Analysis: '' @ cname c))" by blast
    from Cons.IH[OF sub rest] obtain new where new: "worksheets wb' = worksheets wb1 @ new"
      "map (\<lambda>ws. cvalue (get_cell ws 1 1)) new
         = map (\<lambda>c. PStr (take 32767 (''Analysis: '' @ cname c))) (filter analysis_gate cs)"
      by blast
    have "worksheets wb' = worksheets wb @ (ws # new)"
      using new(1) ws(1) by (simp add: add_sheet_def)
    moreover have "map (\<lambda>ws. cvalue (get_cell ws 1 1)) (ws # new)
         = map (\<lambda>c. PStr (take 32767 (''Analysis: '' @ cname c))) (filter analysis_gate (c # cs))"
      using True ws(2) new(2) by simp
    ultimately show ?thesis by blast
  qed
qed

lemma analysis_rows_total:
  assumes "n \<noteq> 0" "\<forall>x \<in> set rows. writable (PStr (py_str L (fst (snd x))))"
  shows "\<exists>ws'. analysis_rows L n rows ws = Inr ws'"
  using assms(2)
proof (induction rows arbitrary: ws)
  case Nil
  then show ?case by simp
next
  case (Cons x rows)
  obtain i v k where x: "x = (i, v, k)" by (cases x) auto
  show ?case unfolding x using assms(1) Cons.IH Cons.prems
    by (simp add: py_true_divide_def set_value_cases percent_writable x)
qed

lemma analysis_head_total:
  assumes "writable (PStr col)"
  shows "\<exists>ws'. analysis_head col ws = Inr ws'"
proof -
  have "writable (PStr (''Analysis: '' @ col))"
    by (rule writable_append) (simp_all add: assms illegal_character_def)
  then show ?thesis
    by (simp add: analysis_head_def set_value_cases writable_eval)
qed

lemma value_counts_values: "fst ` set (value_counts c) \<subseteq> set (cvalues c)"
  by (auto simp: value_counts_def distinct_in_order_def Let_def)

lemma filtered_loop_total:
  assumes "distinct (map cname (df_columns df))" "set cs \<subseteq> set (df_columns df)"
    "\<forall>c \<in> set cs. valid_title (take 25 (cname c) @ ''_Analysis'')"
    "\<forall>c \<in> set cs. cvalues c \<noteq> [] \<longrightarrow> df_len df \<noteq> 0"
    "\<forall>c \<in> set cs. writable (PStr (cname c))
        \<and> (\<forall>v \<in> set (cvalues c). writable (PStr (py_str L v)))"
  shows "\<exists>wb'. filtered_loop L df (map cname cs) wb = Inr wb'"
  using assms(2,3,4,5)
proof (induction cs arbitrary: wb)
  case Nil
  then show ?case by simp
next
  case (Cons c cs)
  have s: "series_of AttributeError df (cname c) = Inr c"
    using series_of_distinct[OF assms(1)] Cons.prems(1) by simp
  have IH: "\<exists>wb'. filtered_loop L df (map cname cs) w = Inr wb'" for w
    using Cons.IH Cons.prems by simp
  show ?case
  proof (cases "analysis_gate c")
    case False
    then show ?thesis using s IH[of wb] by (auto simp: analysis_gate_def)
  next
    case True
    then have "value_counts c \<noteq> []" by (auto simp: analysis_gate_def)
    then have "cvalues c \<noteq> []" by (auto simp: value_counts_def distinct_in_order_def)
    then have n: "df_len df \<noteq> 0" using Cons.prems(3) by simp
    have v: "valid_title (take 25 (cname c) @ ''_Analysis'')" using Cons.prems(2) by simp
    obtain ws where ws: "create_sheet L wb (take 25 (cname c) @ ''_Analysis'') = Inr ws"
      using v by (simp add: create_sheet_def)
    have "writable (PStr (cname c))" using Cons.prems(4) by simp
    from analysis_head_total[OF this] obtain ws0
      where ws0: "analysis_head (cname c) ws = Inr ws0" by blast
    have "\<forall>x \<in> set (enumerate 4 (value_counts c)). writable (PStr (py_str L (fst (snd x))))"
    proof
      fix x assume "x \<in> set (enumerate 4 (value_counts c))"
      then have "snd x \<in> set (value_counts c)" by (rule in_set_enumerate_snd)
      then have "fst (snd x) \<in> set (cvalues c)" using value_counts_values[of c] by auto
      then show "writable (PStr (py_str L (fst (snd x))))" using Cons.prems(4) by simp
    qed
    from analysis_rows_total[OF n this] obtain ws1
      where ws1: "analysis_rows L (df_len df) (enumerate 4 (value_counts c)) ws0 = Inr ws1"
      by blast
    have "\<exists>wb1. analysis_sheet L df wb (cname c) (value_counts c) = Inr wb1"
      by (simp add: analysis_sheet_def ws ws0 ws1)
    then obtain wb1 where "analysis_sheet L df wb (cname c) (value_counts c) = Inr wb1" by blast
    with True s IH[of wb1] show ?thesis by (simp add: analysis_gate_def)
  qed
qed

text \<open>
  Claim C1, as the code has it. When \<^verbatim>\<open>create_filtered_sheets\<close> returns, the sheets
  it has added are, in order, the analysis sheets (cell A1: \<^verbatim>\<open>Analysis: \<close> and the
  label, cut to 32767 characters as every text in a cell is) of exactly those among the
  first five text columns that have at least two distinct values that are not missing
  and at most twenty distinct values when a missing value counts as one of them. It
  returns whenever the table is well formed, its labels are distinct, the sheet titles
  have no character that a title must not have and the labels and the values of these
  columns have no control character that a cell refuses. So a column without missing
  values gets its sheet if and only if it has between 2 and 20 distinct values.
\<close>

theorem analysis_sheets_gate:
  "(create_filtered_sheets L wb df = Inr wb' \<longrightarrow>
      (\<exists>new. worksheets wb' = worksheets wb @ new
         \<and> map (\<lambda>ws. cvalue (get_cell ws 1 1)) new
           = map (\<lambda>c. PStr (take 32767 (''Analysis: '' @ cname c)))
               (filter (\<lambda>c. 2 \<le> card {v \<in> set (cvalues c). \<not> isnull v}
                            \<and> card (set (cvalues c)) \<le> 20)
                  (take 5 (filter (\<lambda>c. cdtype c = Object) (df_columns df))))))
   \<and> (wf_dataframe df \<and> distinct (map cname (df_columns df))
        \<and> list_all (\<lambda>c. valid_title (take 25 (cname c) @ ''_Analysis'')
                        \<and> writable_text (cname c)
                        \<and> list_all (\<lambda>v. writable_text (py_str L v)) (cvalues c))
             (take 5 (filter (\<lambda>c. cdtype c = Object) (df_columns df)))
      \<longrightarrow> (\<exists>wb1. create_filtered_sheets L wb df = Inr wb1))"
proof (intro conjI impI)
  let ?cs = "take 5 (filter (\<lambda>c. cdtype c = Object) (df_columns df))"
  have names: "take 5 (categorical_cols df) = map cname ?cs"
    by (simp add: categorical_cols_def take_map)
  have sub: "set ?cs \<subseteq> set (df_columns df)"
    using set_take_subset[of 5 "filter (\<lambda>c. cdtype c = Object) (df_columns df)"] by auto
  have gate: "analysis_gate = (\<lambda>c. 2 \<le> card {v \<in> set (cvalues c). \<not> isnull v}
                            \<and> card (set (cvalues c)) \<le> 20)"
    by (rule ext) (rule analysis_gate_iff)
  {
    assume "create_filtered_sheets L wb df = Inr wb'"
    then have "filtered_loop L df (map cname ?cs) wb = Inr wb'"
      by (simp add: create_filtered_sheets_def names)
    from filtered_loop_sheets[OF sub this]
    show "\<exists>new. worksheets wb' = worksheets wb @ new
         \<and> map (\<lambda>ws. cvalue (get_cell ws 1 1)) new
           = map (\<lambda>c. PStr (take 32767 (''Analysis: '' @ cname c)))
               (filter (\<lambda>c. 2 \<le> card {v \<in> set (cvalues c). \<not> isnull v}
                            \<and> card (set (cvalues c)) \<le> 20) ?cs)"
      by (simp only: gate)
  }
  {
    assume h: "wf_dataframe df \<and> distinct (map cname (df_columns df))
        \<and> list_all (\<lambda>c. valid_title (take 25 (cname c) @ ''_Analysis'')
                        \<and> writable_text (cname c)
                        \<and> list_all (\<lambda>v. writable_text (py_str L v)) (cvalues c)) ?cs"
    then have v: "\<forall>c \<in> set ?cs. valid_title (take 25 (cname c) @ ''_Analysis'')"
      and w: "\<forall>c \<in> set ?cs. writable (PStr (cname c))
                \<and> (\<forall>v \<in> set (cvalues c). writable (PStr (py_str L v)))"
      by (simp_all add: list_all_iff writable_def)
    have len: "\<forall>c \<in> set (df_columns df). length (cvalues c) = df_len df"
      using h by (simp add: wf_dataframe_def list_all_iff)
    have n: "\<forall>c \<in> set ?cs. cvalues c \<noteq> [] \<longrightarrow> df_len df \<noteq> 0"
    proof (intro ballI impI)
      fix c assume c: "c \<in> set ?cs" and ne: "cvalues c \<noteq> []"
      from c sub have "c \<in> set (df_columns df)" by blast
      with len have "length (cvalues c) = df_len df" by blast
      moreover have "length (cvalues c) \<noteq> 0" using ne by simp
      ultimately show "df_len df \<noteq> 0" by simp
    qed
    from h have d: "distinct (map cname (df_columns df))" by simp
    from filtered_loop_total[OF d sub v n w]
    show "\<exists>wb1. create_filtered_sheets L wb df = Inr wb1"
      by (simp add: create_filtered_sheets_def names)
  }
qed

lemma table_ab_gate:
  "filter (\<lambda>c. 2 \<le> card {v \<in> set (cvalues c). \<not> isnull v} \<and> card (set (cvalues c)) \<le> 20)
     (take 5 (filter (\<lambda>c. cdtype c = Object) (df_columns table_ab)))
   = [\<lparr>cname = ''B'', cdtype = Object, cvalues = [PStr ''x'', PStr ''y'']\<rparr>]"
proof -
  have "analysis_gate \<lparr>cname = ''B'', cdtype = Object, cvalues = [PStr ''x'', PStr ''y'']\<rparr>"
    by (simp add: analysis_gate_def unique_def value_counts_def distinct_in_order_def isnull_def)
  then show ?thesis
    by (simp add: table_ab_def analysis_gate_iff)
qed

theorem analysis_sheets_gate_witness:
  "\<exists>wb1 new. create_filtered_sheets (sample_library table_ab) create_workbook table_ab = Inr wb1
      \<and> worksheets wb1 = worksheets create_workbook @ new
      \<and> map (\<lambda>ws. cvalue (get_cell ws 1 1)) new = [PStr ''Analysis: B'']"
proof -
  have "wf_dataframe table_ab \<and> distinct (map cname (df_columns table_ab))
        \<and> list_all (\<lambda>c. valid_title (take 25 (cname c) @ ''_Analysis'')
                        \<and> writable_text (cname c)
                        \<and> list_all (\<lambda>v. writable_text (py_str (sample_library table_ab) v))
                             (cvalues c))
             (take 5 (filter (\<lambda>c. cdtype c = Object) (df_columns table_ab)))"
    by (simp add: wf_dataframe_def table_ab_def valid_title_def invalid_title_chars_def
          writable_eval py_str_def)
  with analysis_sheets_gate[of "sample_library table_ab" create_workbook table_ab]
  obtain wb1 where wb1:
    "create_filtered_sheets (sample_library table_ab) create_workbook table_ab = Inr wb1"
    by blast
  with analysis_sheets_gate[of "sample_library table_ab" create_workbook table_ab wb1]
  obtain new where "worksheets wb1 = worksheets create_workbook @ new"
    "map (\<lambda>ws. cvalue (get_cell ws 1 1)) new
       = map (\<lambda>c. PStr (take 32767 (''Analysis: '' @ cname c)))
           (filter (\<lambda>c. 2 \<le> card {v \<in> set (cvalues c). \<not> isnull v} \<and> card (set (cvalues c)) \<le> 20)
              (take 5 (filter (\<lambda>c. cdtype c = Object) (df_columns table_ab))))"
    by blast
  then have "worksheets wb1 = worksheets create_workbook @ new
      \<and> map (\<lambda>ws. cvalue (get_cell ws 1 1)) new = [PStr ''Analysis: B'']"
    by (simp add: table_ab_gate)
  with wb1 show ?thesis by (intro exI[of _ wb1] exI[of _ new]) simp
qed

text \<open>
  The claim as stated fails on columns with missing values, however its distinct values
  are counted: a column with twenty distinct strings and a missing value has twenty
  entries in \<^verbatim>\<open>value_counts()\<close> and gets no sheet (\<^verbatim>\<open>unique()\<close> has 21 values),
  and a column with one string and a missing value has two values in \<^verbatim>\<open>unique()\<close>
  and gets no sheet (\<^verbatim>\<open>value_counts()\<close> has one entry).
\<close>

theorem missing_value_counts_against_twenty:
  "length (value_counts (hd (df_columns table_twenty_and_missing))) = 20
   \<and> create_filtered_sheets (sample_library table_twenty_and_missing) create_workbook
        table_twenty_and_missing = Inr create_workbook
   \<and> length (unique (hd (df_columns table_one_and_missing))) = 2
   \<and> create_filtered_sheets (sample_library table_one_and_missing) create_workbook
        table_one_and_missing = Inr create_workbook"
proof -
  have u20: "length (unique (hd (df_columns table_twenty_and_missing))) = 21"
    by (simp add: table_twenty_and_missing_def unique_def distinct_in_order_def)
  have v20: "length (value_counts (hd (df_columns table_twenty_and_missing))) = 20"
    by (simp add: table_twenty_and_missing_def value_counts_def distinct_in_order_def isnull_def)
  have u1: "length (unique (hd (df_columns table_one_and_missing))) = 2"
    by (simp add: table_one_and_missing_def unique_def distinct_in_order_def)
  have v1: "length (value_counts (hd (df_columns table_one_and_missing))) = 1"
    by (simp add: table_one_and_missing_def value_counts_def distinct_in_order_def isnull_def)
  have s20: "series_of AttributeError table_twenty_and_missing ''k''
               = Inr (hd (df_columns table_twenty_and_missing))"
    by (simp add: series_of_def table_twenty_and_missing_def)
  have s1: "series_of AttributeError table_one_and_missing ''k''
               = Inr (hd (df_columns table_one_and_missing))"
    by (simp add: series_of_def table_one_and_missing_def)
  have c20: "take 5 (categorical_cols table_twenty_and_missing) = [''k'']"
    by (simp add: categorical_cols_def table_twenty_and_missing_def)
  have c1: "take 5 (categorical_cols table_one_and_missing) = [''k'']"
    by (simp add: categorical_cols_def table_one_and_missing_def)
  have a: "create_filtered_sheets (sample_library table_twenty_and_missing) create_workbook
        table_twenty_and_missing = Inr create_workbook"
    by (simp add: create_filtered_sheets_def c20 s20 u20)
  have b: "create_filtered_sheets (sample_library table_one_and_missing) create_workbook
        table_one_and_missing = Inr create_workbook"
    by (simp add: create_filtered_sheets_def c1 s1 u1 v1)
  from v20 a u1 b show ?thesis by blast
qed

section \<open>The null percentages of the summary sheet\<close>

lemma get_cell_touch: "get_cell (update_cell (\<lambda>x. x) r c ws) = get_cell ws"
  by (intro ext) (simp add: get_cell_update_cell)

lemma get_cell_width_update [simp]: "get_cell (ws\<lparr>column_width := w\<rparr>) = get_cell ws"
  by (intro ext) (simp add: get_cell_def)

lemma get_cell_fold_touch:
  "get_cell (fold (\<lambda>r. update_cell (\<lambda>x. x) r j) rs ws) = get_cell ws"
  by (induction rs arbitrary: ws) (simp_all add: get_cell_touch)

lemma get_cell_adjust_column: "get_cell (adjust_column L cap n j ws) = get_cell ws"
  by (simp add: adjust_column_def Let_def get_cell_fold_touch)

lemma get_cell_auto_adjust_widths: "get_cell (auto_adjust_widths L cap ws) = get_cell ws"
proof -
  have "get_cell (fold (adjust_column L cap n) js w) = get_cell w" for n js w
    by (induction js arbitrary: w) (simp_all add: get_cell_adjust_column)
  then show ?thesis by (simp add: auto_adjust_widths_def)
qed

lemma keeps_above_update_cell: "k \<le> r \<Longrightarrow> keeps_above k (update_cell f r c)"
  by (simp add: keeps_above_def get_cell_update_cell)

lemma keeps_above_put_value: "k \<le> r \<Longrightarrow> keeps_above k (put_value r c v)"
  by (simp add: put_value_def keeps_above_update_cell)

lemma keeps_above_set_font: "k \<le> r \<Longrightarrow> keeps_above k (set_font r c v)"
  by (simp add: set_font_def keeps_above_update_cell)

lemma keeps_above_comp:
  "keeps_above k g \<Longrightarrow> keeps_above k h \<Longrightarrow> keeps_above k (\<lambda>ws. g (h ws))"
  by (simp add: keeps_above_def)

lemma keeps_above_fold:
  "(\<And>x. x \<in> set xs \<Longrightarrow> keeps_above k (g x)) \<Longrightarrow> keeps_above k (fold g xs)"
proof (induction xs)
  case Nil
  then show ?case by (simp add: keeps_above_def)
next
  case (Cons x xs)
  then have "keeps_above k (g x)" "keeps_above k (fold g xs)" by simp_all
  then show ?case by (simp add: keeps_above_def)
qed

lemma keeps_above_apply_all:
  "(\<And>g. g \<in> set gs \<Longrightarrow> keeps_above k g) \<Longrightarrow> keeps_above k (apply_all gs)"
proof -
  assume a: "\<And>g. g \<in> set gs \<Longrightarrow> keeps_above k g"
  have "apply_all gs = fold (\<lambda>f. f) gs" by (intro ext) (simp add: apply_all_def)
  then show ?thesis using keeps_above_fold[of gs k "\<lambda>f. f"] a by simp
qed

lemma keeps_above_stats_block:
  "keeps_above (length (df_columns df) + 11) (stats_block_of L df)"
proof -
  let ?k = "length (df_columns df) + 11"
  let ?b = "fold (\<lambda>(i, header) w.
                    update_cell summary_header_style (?k + 2) (i + 1)
                      (put_value (?k + 2) (i + 1) (PStr header) w))
                 (enumerate 0 (''Statistic'' # numeric_cols df))"
  let ?inner = "\<lambda>i st. fold (\<lambda>(j, col). put_value (?k + 3 + i) (j + 2) (stat_cell L df col st))
                      (enumerate 0 (numeric_cols df))"
  let ?c = "fold (\<lambda>(i, (st, label)) w. ?inner i st (put_value (?k + 3 + i) 1 (PStr label) w))
              (enumerate 0 stat_index)"
  have b: "keeps_above ?k ?b"
  proof (rule keeps_above_fold)
    fix x :: "nat \<times> string"
    obtain i header where x: "x = (i, header)" by (cases x)
    have "keeps_above ?k (\<lambda>w. update_cell summary_header_style (?k + 2) (i + 1)
                      (put_value (?k + 2) (i + 1) (PStr header) w))"
      by (simp add: keeps_above_def put_value_def get_cell_update_cell)
    then show "keeps_above ?k (case x of (i, header) \<Rightarrow> \<lambda>w.
             update_cell summary_header_style (?k + 2) (i + 1)
               (put_value (?k + 2) (i + 1) (PStr header) w))"
      unfolding x by simp
  qed
  have inner: "keeps_above ?k (?inner i st)" for i st
  proof (rule keeps_above_fold)
    fix x :: "nat \<times> string"
    obtain j col where x: "x = (j, col)" by (cases x)
    show "keeps_above ?k (case x of (j, col) \<Rightarrow>
             put_value (?k + 3 + i) (j + 2) (stat_cell L df col st))"
      unfolding x by (simp add: keeps_above_put_value)
  qed
  have c: "keeps_above ?k ?c"
  proof (rule keeps_above_fold)
    fix x :: "nat \<times> stat \<times> string"
    obtain i st label where x: "x = (i, st, label)" by (cases x)
    have "keeps_above ?k (put_value (?k + 3 + i) 1 (PStr label))"
      by (simp add: keeps_above_put_value)
    with inner[of i st]
    have "keeps_above ?k (\<lambda>w. ?inner i st (put_value (?k + 3 + i) 1 (PStr label) w))"
      unfolding keeps_above_def by simp
    then show "keeps_above ?k (case x of (i, st, label) \<Rightarrow> \<lambda>w.
                 ?inner i st (put_value (?k + 3 + i) 1 (PStr label) w))"
      unfolding x by simp
  qed
  have "stats_block_of L df
          = apply_all [put_value ?k 1 (PStr ''Numeric Columns Statistics''),
                       set_font ?k 1 (title_font 14), ?b, ?c]"
    by (simp add: stats_block_of_def Let_def)
  moreover have "keeps_above ?k (apply_all [put_value ?k 1 (PStr ''Numeric Columns Statistics''),
                       set_font ?k 1 (title_font 14), ?b, ?c])"
    by (rule keeps_above_apply_all) (use b c in \<open>auto simp: keeps_above_put_value keeps_above_set_font\<close>)
  ultimately show ?thesis by simp
qed

lemma stats_block_refines: "refines (stats_block L df) (stats_block_of L df)"
proof -
  let ?k = "length (df_columns df) + 11"
  have h: "refines (case x of (i, header) \<Rightarrow> \<lambda>w.
               bind (set_value (?k + 2) (i + 1) (PStr header) w)
                    (returns (update_cell summary_header_style (?k + 2) (i + 1))))
             (case x of (i, header) \<Rightarrow> \<lambda>w.
               update_cell summary_header_style (?k + 2) (i + 1)
                 (put_value (?k + 2) (i + 1) (PStr header) w))" for x :: "nat \<times> string"
    by (cases x) (simp add: refines_bind)
  have i: "refines (case y of (j, col) \<Rightarrow>
                      set_value (?k + 3 + i) (j + 2) (stat_cell L df col st))
                   (case y of (j, col) \<Rightarrow>
                      put_value (?k + 3 + i) (j + 2) (stat_cell L df col st))"
    for y :: "nat \<times> string" and i st
    by (cases y) simp
  have c: "refines (case x of (i, (st, label)) \<Rightarrow> \<lambda>w.
               bind (set_value (?k + 3 + i) 1 (PStr label) w)
                    (for_each (\<lambda>(j, col).
                                 set_value (?k + 3 + i) (j + 2) (stat_cell L df col st))
                              (enumerate 0 (numeric_cols df))))
             (case x of (i, (st, label)) \<Rightarrow> \<lambda>w.
               fold (\<lambda>(j, col). put_value (?k + 3 + i) (j + 2) (stat_cell L df col st))
                    (enumerate 0 (numeric_cols df))
                    (put_value (?k + 3 + i) 1 (PStr label) w))" for x :: "nat \<times> stat \<times> string"
  proof -
    obtain i st label where x: "x = (i, st, label)" by (cases x)
    show ?thesis unfolding x
      by (simp only: prod.case) (rule refines_bind[OF refines_set_value refines_for_each[OF i]])
  qed
  show ?thesis
    unfolding stats_block_def stats_block_of_def Let_def
    by (rule refines_run_all)
       (simp only: list_all2_Cons list_all2_Nil refines_set_value refines_returns
          refines_for_each[OF h] refines_for_each[OF c] simp_thms)
qed

lemma stat_cell_writable: "writable (stat_cell L df col st)"
proof -
  have "writable (PStr (format_2f x))" for x
    by (rule writable_legal) (rule format_2f_legal)
  then show ?thesis by (simp add: stat_cell_def Let_def writable_eval)
qed

lemma stats_block_always:
  assumes "\<forall>col \<in> set (numeric_cols df). writable (PStr col)"
  shows "always (stats_block L df) (stats_block_of L df)"
proof -
  let ?k = "length (df_columns df) + 11"
  have h: "always (case x of (i, header) \<Rightarrow> \<lambda>w.
               bind (set_value (?k + 2) (i + 1) (PStr header) w)
                    (returns (update_cell summary_header_style (?k + 2) (i + 1))))
             (case x of (i, header) \<Rightarrow> \<lambda>w.
               update_cell summary_header_style (?k + 2) (i + 1)
                 (put_value (?k + 2) (i + 1) (PStr header) w))"
    if "x \<in> set (enumerate 0 (''Statistic'' # numeric_cols df))" for x :: "nat \<times> string"
  proof -
    obtain i header where x: "x = (i, header)" by (cases x)
    with that have "header \<in> set (''Statistic'' # numeric_cols df)"
      using in_set_enumerate_snd by fastforce
    then have "writable (PStr header)" using assms by (auto simp: writable_eval)
    then show ?thesis unfolding x
      by (simp only: prod.case) (rule always_bind[OF always_set_value always_returns])
  qed
  have i: "always (case y of (j, col) \<Rightarrow>
                      set_value (?k + 3 + i) (j + 2) (stat_cell L df col st))
                   (case y of (j, col) \<Rightarrow>
                      put_value (?k + 3 + i) (j + 2) (stat_cell L df col st))"
    for y :: "nat \<times> string" and i st
    by (cases y) (simp add: always_set_value stat_cell_writable)
  have c: "always (case x of (i, (st, label)) \<Rightarrow> \<lambda>w.
               bind (set_value (?k + 3 + i) 1 (PStr label) w)
                    (for_each (\<lambda>(j, col).
                                 set_value (?k + 3 + i) (j + 2) (stat_cell L df col st))
                              (enumerate 0 (numeric_cols df))))
             (case x of (i, (st, label)) \<Rightarrow> \<lambda>w.
               fold (\<lambda>(j, col). put_value (?k + 3 + i) (j + 2) (stat_cell L df col st))
                    (enumerate 0 (numeric_cols df))
                    (put_value (?k + 3 + i) 1 (PStr label) w))"
    if "x \<in> set (enumerate 0 stat_index)" for x :: "nat \<times> stat \<times> string"
  proof -
    obtain i st label where x: "x = (i, st, label)" by (cases x)
    with that have "(st, label) \<in> set stat_index" using in_set_enumerate_snd by fastforce
    then have "writable (PStr label)" by (auto simp: stat_index_def writable_eval)
    then show ?thesis unfolding x
      by (simp only: prod.case) (rule always_bind[OF always_set_value always_for_each[OF i]])
  qed
  have t: "always (set_value ?k 1 (PStr ''Numeric Columns Statistics''))
             (put_value ?k 1 (PStr ''Numeric Columns Statistics''))"
    by (rule always_set_value) (simp add: writable_eval)
  show ?thesis
    unfolding stats_block_def stats_block_of_def Let_def
    by (rule always_run_all)
       (simp only: list_all2_Cons list_all2_Nil t always_returns
          always_for_each[OF h] always_for_each[OF c] simp_thms)
qed

lemma info_row_split:
  "info_row df i s ws
     = apply_all
         [put_value i 2 (PStr (dtype_str (cdtype s))),
          put_value i 3 (PInt (int (count s))),
          put_value i 4 (PInt (int (null_count s))),
          put_value i 5 (PStr (percent_str (np_true_divide (int (null_count s)) (int (df_len df)))))]
         (put_value i 1 (PStr (cname s)) ws)"
  by (simp add: info_row_def apply_all_def)

lemma info_tail_refines:
  "refines (run_all
              [set_value i 2 (PStr (dtype_str (cdtype s))),
               set_value i 3 (PInt (int (count s))),
               set_value i 4 (PInt (int (null_count s))),
               set_value i 5
                 (PStr (percent_str (np_true_divide (int (null_count s)) (int (df_len df)))))])
           (apply_all
              [put_value i 2 (PStr (dtype_str (cdtype s))),
               put_value i 3 (PInt (int (count s))),
               put_value i 4 (PInt (int (null_count s))),
               put_value i 5
                 (PStr (percent_str (np_true_divide (int (null_count s)) (int (df_len df)))))])"
  by (rule refines_run_all) simp

lemma dtype_str_writable: "writable (PStr (dtype_str d))"
  by (cases d) (simp_all add: dtype_str_def writable_eval)

lemma info_tail_always:
  "always (run_all
              [set_value i 2 (PStr (dtype_str (cdtype s))),
               set_value i 3 (PInt (int (count s))),
               set_value i 4 (PInt (int (null_count s))),
               set_value i 5
                 (PStr (percent_str (np_true_divide (int (null_count s)) (int (df_len df)))))])
           (apply_all
              [put_value i 2 (PStr (dtype_str (cdtype s))),
               put_value i 3 (PInt (int (count s))),
               put_value i 4 (PInt (int (null_count s))),
               put_value i 5
                 (PStr (percent_str (np_true_divide (int (null_count s)) (int (df_len df)))))])"
  by (rule always_run_all)
     (simp add: always_set_value dtype_str_writable percent_writable)

lemma column_info_Inr:
  assumes "column_info df (enumerate k (map cname cs)) ws = Inr ws'"
    "set cs \<subseteq> set (df_columns df)"
  shows "ws' = fold (\<lambda>(i, s). info_row df i s) (enumerate k cs) ws"
  using assms
proof (induction cs arbitrary: k ws)
  case Nil
  then show ?case by simp
next
  case (Cons c cs)
  from Cons.prems(1) obtain s ws2 where
    s: "series_of AttributeError df (cname c) = Inr s"
    and t: "run_all
              [set_value k 2 (PStr (dtype_str (cdtype s))),
               set_value k 3 (PInt (int (count s))),
               set_value k 4 (PInt (int (null_count s))),
               set_value k 5
                 (PStr (percent_str (np_true_divide (int (null_count s)) (int (df_len df)))))]
              (put_value k 1 (PStr (cname c)) ws) = Inr ws2"
    and rest: "column_info df (enumerate (Suc k) (map cname cs)) ws2 = Inr ws'"
    by (auto simp: bind_eq_Inr set_value_Inr)
  have sc: "s = c" using series_of_Inr_self[OF _ s] Cons.prems(2) by simp
  have "ws2 = info_row df k c ws"
    using refinesD[OF info_tail_refines t] by (simp add: info_row_split sc)
  with Cons.IH[OF rest] Cons.prems(2) show ?case by simp
qed

lemma column_info_total:
  assumes "distinct (map cname (df_columns df))" "set cs \<subseteq> set (df_columns df)"
    "\<forall>c \<in> set cs. writable (PStr (cname c))"
  shows "\<exists>ws'. column_info df (enumerate k (map cname cs)) ws = Inr ws'"
  using assms(2,3)
proof (induction cs arbitrary: k ws)
  case Nil
  then show ?case by simp
next
  case (Cons c cs)
  have s: "series_of AttributeError df (cname c) = Inr c"
    using series_of_distinct[OF assms(1)] Cons.prems(1) by simp
  have w: "writable (PStr (cname c))" using Cons.prems(2) by simp
  show ?case
    using Cons.IH Cons.prems
    by (simp add: set_value_cases w s dtype_str_writable percent_writable)
qed

lemma create_summary_sheet_Inr:
  assumes "create_summary_sheet L stamp wb df = Inr wb'"
  shows "wb' = add_sheet wb (summary_sheet_of L stamp df
                  (new_worksheet (avoid_duplicate_name L (sheetnames wb) ''Data Summary'')))"
proof -
  let ?ws = "new_worksheet (avoid_duplicate_name L (sheetnames wb) ''Data Summary'')"
  from assms obtain ws0 ws1 ws2 where
    a: "summary_head stamp df ?ws = Inr ws0"
    and b: "column_info df (enumerate 9 (map cname (df_columns df))) ws0 = Inr ws1"
    and c: "(if 0 < length (numeric_cols df) then stats_block L df ws1 else Inr ws1) = Inr ws2"
    and d: "wb' = add_sheet wb (auto_adjust_widths L 30 ws2)"
    by (auto simp: create_summary_sheet_def create_sheet_def bind_eq_Inr)
  have a': "ws0 = summary_head_of stamp df ?ws"
    using refinesD[OF summary_head_refines a] .
  have b': "ws1 = fold (\<lambda>(i, s). info_row df i s) (enumerate 9 (df_columns df)) ws0"
    using column_info_Inr[OF b] by simp
  have c': "ws2 = (if 0 < length (numeric_cols df) then stats_block_of L df ws1 else ws1)"
    using c refinesD[OF stats_block_refines, of L df ws1 ws2] by (auto split: if_splits)
  show ?thesis unfolding d c' b' a' by (simp add: summary_sheet_of_def Let_def)
qed

lemma create_summary_sheet_total:
  assumes "distinct (map cname (df_columns df))"
    "\<forall>c \<in> set (df_columns df). writable (PStr (cname c))" "writable (PStr stamp)"
  shows "\<exists>wb'. create_summary_sheet L stamp wb df = Inr wb'"
proof -
  let ?ws = "new_worksheet (avoid_duplicate_name L (sheetnames wb) ''Data Summary'')"
  have "\<exists>ws1. column_info df (enumerate 9 (map cname (df_columns df)))
                           (summary_head_of stamp df ?ws) = Inr ws1"
    by (rule column_info_total[OF assms(1) _ assms(2)]) simp
  then obtain ws1 where ws1: "column_info df (enumerate 9 (map cname (df_columns df)))
                           (summary_head_of stamp df ?ws) = Inr ws1" by blast
  have "\<forall>col \<in> set (numeric_cols df). writable (PStr col)"
    using assms(2) by (auto simp: numeric_cols_def)
  note sb = alwaysD[OF stats_block_always[OF this], of L ws1]
  show ?thesis
    by (simp add: create_summary_sheet_def create_sheet_def
          alwaysD[OF summary_head_always[OF assms(3)]] ws1 sb)
qed

lemma info_row_other: "r \<noteq> i \<Longrightarrow> get_cell (info_row df i s ws) r c = get_cell ws r c"
  by (simp add: info_row_def apply_all_def put_value_def get_cell_update_cell)

lemma info_row_E:
  "cvalue (get_cell (info_row df i s ws) i 5) = PStr (take 32767 (null_percentage df s))"
  by (simp add: info_row_def apply_all_def put_value_def get_cell_update_cell null_percentage_def)

lemma info_rows_other:
  "r < k \<or> k + length cs \<le> r \<Longrightarrow>
   get_cell (fold (\<lambda>(i, s). info_row df i s) (enumerate k cs) ws) r c = get_cell ws r c"
proof (induction cs arbitrary: k ws)
  case Nil
  then show ?case by simp
next
  case (Cons s cs)
  then have "r < Suc k \<or> Suc k + length cs \<le> r" "r \<noteq> k" by auto
  with Cons.IH[of "Suc k"] show ?case by (simp add: info_row_other)
qed

lemma info_rows_E:
  "j < length cs \<Longrightarrow>
   cvalue (get_cell (fold (\<lambda>(i, s). info_row df i s) (enumerate k cs) ws) (k + j) 5)
     = PStr (take 32767 (null_percentage df (cs ! j)))"
proof (induction cs arbitrary: k j ws)
  case Nil
  then show ?case by simp
next
  case (Cons s cs)
  show ?case
  proof (cases j)
    case 0
    then show ?thesis by (simp add: info_rows_other info_row_E)
  next
    case (Suc j')
    with Cons.prems have "j' < length cs" by simp
    from Cons.IH[OF this, of "Suc k"] Suc show ?thesis by simp
  qed
qed

lemma summary_sheet_cell_E:
  assumes "j < length (df_columns df)"
  shows "cvalue (get_cell (summary_sheet_of L stamp df ws) (9 + j) 5)
           = PStr (take 32767 (null_percentage df (df_columns df ! j)))"
proof -
  let ?ws1 = "fold (\<lambda>(i, s). info_row df i s) (enumerate 9 (df_columns df))
                (summary_head_of stamp df ws)"
  let ?ws2 = "if 0 < length (numeric_cols df) then stats_block_of L df ?ws1 else ?ws1"
  have "9 + j < length (df_columns df) + 11" using assms by simp
  then have "get_cell ?ws2 (9 + j) 5 = get_cell ?ws1 (9 + j) 5"
    using keeps_above_stats_block[of df L] by (simp add: keeps_above_def)
  then show ?thesis
    using info_rows_E[OF assms, of df 9]
    by (simp add: summary_sheet_of_def Let_def get_cell_auto_adjust_widths)
qed

lemma bitlen_pos: "0 < n \<Longrightarrow> bitlen n = Suc (bitlen (n div 2))"
  by (simp add: bitlen.simps)

lemma bitlen_nonpos: "n \<le> 0 \<Longrightarrow> bitlen n = 0"
  by (simp add: bitlen.simps)

lemma bitlen_1: "bitlen 1 = 1"
  by (simp add: bitlen.simps[of 1] bitlen.simps[of 0])

lemma round_half_even_of_int: "round_half_even (of_int k) = k"
  by (simp add: round_half_even_def)

lemma round_binary64_0: "round_binary64 0 = 0"
  by (simp add: round_binary64_def)

lemma ilog2_1: "ilog2 1 = 0"
  by (simp add: ilog2_def bitlen_1 pow2_def)

lemma round_binary64_1: "round_binary64 1 = 1"
proof -
  have "(1::rat) / pow2 (- 52) = of_int (2 ^ 52)" by (simp add: pow2_def)
  then have "round_half_even (1 / pow2 (- 52)) = 2 ^ 52"
    by (simp only: round_half_even_of_int)
  then show ?thesis by (simp add: round_binary64_def ilog2_1 Let_def) (simp add: pow2_def)
qed

lemma to_double_0: "to_double 0 = Fin 0"
  by (simp add: to_double_def round_binary64_0 pow2_def)

lemma to_double_1: "to_double 1 = Fin 1"
  by (simp add: to_double_def round_binary64_1 pow2_def)

lemma bitlen_100: "bitlen 100 = 7"
  by (simp add: bitlen.simps[of 100] bitlen.simps[of 50] bitlen.simps[of 25] bitlen.simps[of 12]
        bitlen.simps[of 6] bitlen.simps[of 3] bitlen.simps[of 1] bitlen.simps[of 0])

lemma ilog2_100: "ilog2 100 = 6"
proof -
  have "quotient_of 100 = (100, 1)" by simp
  then show ?thesis by (simp add: ilog2_def bitlen_100 bitlen_1 pow2_def)
qed

lemma round_binary64_100: "round_binary64 100 = 100"
proof -
  have "(100::rat) / pow2 (- 46) = of_int (100 * 2 ^ 46)" by (simp add: pow2_def)
  then have "round_half_even (100 / pow2 (- 46)) = 100 * 2 ^ 46"
    by (simp only: round_half_even_of_int)
  then show ?thesis by (simp add: round_binary64_def ilog2_100 Let_def) (simp add: pow2_def)
qed

lemma to_double_100: "to_double 100 = Fin 100"
  by (simp add: to_double_def round_binary64_100 pow2_def)

lemma format_2f_0: "format_2f (Fin 0) = ''0.00''"
  by (simp add: format_2f_def round_half_even_def str_nat.simps digit_char_def)

lemma format_2f_100: "format_2f (Fin 100) = ''100.00''"
  by (simp add: format_2f_def round_half_even_def str_nat.simps digit_char_def)

lemma percent_str_0: "percent_str (Fin 0) = ''0.00%''"
  by (simp add: percent_str_def times_100_def to_double_0 format_2f_0)

lemma percent_str_1: "percent_str (Fin 1) = ''100.00%''"
  by (simp add: percent_str_def times_100_def to_double_100 format_2f_100)

lemma percent_str_NaN: "percent_str NaN = ''nan%''"
  by (simp add: percent_str_def times_100_def format_2f_def)

lemma np_true_divide_0: "n \<noteq> 0 \<Longrightarrow> np_true_divide 0 n = Fin 0"
  by (simp add: np_true_divide_def round_binary64_0 to_double_0)

lemma np_true_divide_0_0: "np_true_divide 0 0 = NaN"
  by (simp add: np_true_divide_def)

lemma pow2_powi: "pow2 e = 2 powi e"
  by (simp add: pow2_def power_int_def inverse_eq_divide power_one_over)

lemma pow2_pos: "0 < pow2 e"
  by (simp add: pow2_powi)

lemma pow2_mono: "a \<le> b \<Longrightarrow> pow2 a \<le> pow2 b"
  by (simp add: pow2_powi power_int_increasing)

lemma pow2_diff: "pow2 (a - b) = pow2 a / pow2 b"
  by (simp add: pow2_powi power_int_diff)

lemma pow2_le_1: "e \<le> 0 \<Longrightarrow> pow2 e \<le> 1"
  using pow2_mono[of e 0] by (simp add: pow2_def)

lemma bitlen_bounds: "0 < n \<Longrightarrow> 2 ^ (bitlen n - 1) \<le> n \<and> n < 2 ^ bitlen n"
proof (induction n rule: bitlen.induct)
  case (1 n)
  show ?case
  proof (cases "n div 2 \<le> 0")
    case True
    with "1.prems" have "n = 1" by presburger
    then show ?thesis by (simp add: bitlen_1)
  next
    case False
    then have h: "0 < n div 2" by simp
    with "1.IH" "1.prems" have IH: "2 ^ (bitlen (n div 2) - 1) \<le> n div 2"
      "n div 2 < 2 ^ bitlen (n div 2)" by simp_all
    have b: "bitlen n = Suc (bitlen (n div 2))" using "1.prems" by (rule bitlen_pos)
    obtain k where k: "bitlen (n div 2) = Suc k" using h by (cases "bitlen (n div 2)") (simp_all add: bitlen_pos)
    from IH k have "2 * 2 ^ k \<le> 2 * (n div 2)" "2 * (n div 2) + 2 \<le> 2 * 2 ^ Suc k" by simp_all
    moreover have "2 * (n div 2) \<le> n" "n < 2 * (n div 2) + 2" by presburger+
    ultimately show ?thesis unfolding b k by simp
  qed
qed

lemma ilog2_le:
  assumes "0 < q"
  shows "pow2 (ilog2 q) \<le> q"
proof -
  obtain a b where ab: "quotient_of q = (a, b)" by (cases "quotient_of q")
  then have b: "0 < b" using quotient_of_denom_pos by blast
  have q: "q = of_int a / of_int b" using ab by (rule quotient_of_div)
  have a: "0 < a"
  proof (rule ccontr)
    assume "\<not> 0 < a"
    then have "of_int a \<le> (0::rat)" by simp
    then have "q \<le> 0" unfolding q using b by (simp add: divide_nonpos_pos)
    with assms show False by simp
  qed
  let ?e0 = "int (bitlen a) - int (bitlen b)"
  show ?thesis
  proof (cases "pow2 ?e0 \<le> q")
    case True
    then show ?thesis by (simp add: ilog2_def ab)
  next
    case False
    then have e: "ilog2 q = ?e0 - 1" by (simp add: ilog2_def ab)
    obtain k where k: "bitlen a = Suc k" using a by (cases "bitlen a") (simp_all add: bitlen_pos)
    from bitlen_bounds[OF a] k have la: "(2::int) ^ k \<le> a" by simp
    from bitlen_bounds[OF b] have lb: "b \<le> 2 ^ bitlen b" by simp
    have "pow2 (?e0 - 1) = pow2 (int k) / pow2 (int (bitlen b))"
      unfolding k by (simp add: pow2_diff[symmetric])
    also have "\<dots> = 2 ^ k / 2 ^ bitlen b" by (simp add: pow2_def)
    also have "\<dots> \<le> of_int a / of_int b"
    proof (rule frac_le)
      have "(of_int (2 ^ k) :: rat) \<le> of_int a" using la by (simp only: of_int_le_iff)
      then show "(2::rat) ^ k \<le> of_int a" by simp
      have "(of_int b :: rat) \<le> of_int (2 ^ bitlen b)" using lb by (simp only: of_int_le_iff)
      then show "(of_int b :: rat) \<le> 2 ^ bitlen b" by simp
      show "(0::rat) < of_int b" using b by simp
      show "(0::rat) \<le> of_int a" using a by simp
    qed
    finally have A: "pow2 (?e0 - 1) \<le> of_int a / of_int b" .
    have B: "of_int a / of_int b = q" using q by simp
    from A show ?thesis unfolding e by (simp only: B)
  qed
qed

lemma round_half_even_bounds:
  "q - 1 / 2 \<le> of_int (round_half_even q) \<and> of_int (round_half_even q) \<le> q + 1 / 2"
proof -
  have f: "of_int \<lfloor>q\<rfloor> \<le> q" "q < of_int \<lfloor>q\<rfloor> + 1" by linarith+
  consider "q - of_int \<lfloor>q\<rfloor> < 1 / 2" | "1 / 2 < q - of_int \<lfloor>q\<rfloor>"
    | "q - of_int \<lfloor>q\<rfloor> = 1 / 2" by linarith
  then show ?thesis
  proof cases
    case 1
    then have "round_half_even q = \<lfloor>q\<rfloor>" by (simp add: round_half_even_def Let_def)
    then have "(of_int (round_half_even q) :: rat) = of_int \<lfloor>q\<rfloor>" by simp
    with f 1 show ?thesis by linarith
  next
    case 2
    then have "round_half_even q = \<lfloor>q\<rfloor> + 1" by (simp add: round_half_even_def Let_def)
    then have "(of_int (round_half_even q) :: rat) = of_int \<lfloor>q\<rfloor> + 1" by simp
    with f 2 show ?thesis by linarith
  next
    case 3
    then have "round_half_even q = \<lfloor>q\<rfloor> \<or> round_half_even q = \<lfloor>q\<rfloor> + 1"
      by (simp add: round_half_even_def Let_def)
    then have "(of_int (round_half_even q) :: rat) = of_int \<lfloor>q\<rfloor>
               \<or> (of_int (round_half_even q) :: rat) = of_int \<lfloor>q\<rfloor> + 1" by auto
    with f 3 show ?thesis by linarith
  qed
qed

lemma round_half_even_nonneg: "0 \<le> q \<Longrightarrow> 0 \<le> round_half_even q"
  by (auto simp: round_half_even_def Let_def)

lemma round_binary64_pos_eq:
  "0 < q \<Longrightarrow> round_binary64 q =
     of_int (round_half_even (q / pow2 (max (ilog2 q) (- 1022) - 52)))
       * pow2 (max (ilog2 q) (- 1022) - 52)"
  by (simp add: round_binary64_def Let_def)

lemma ulp_le:
  assumes "0 < q"
  shows "pow2 (max (ilog2 q) (- 1022) - 52) \<le> max q 1"
proof (cases "- 1022 \<le> ilog2 q")
  case True
  then have "pow2 (max (ilog2 q) (- 1022) - 52) = pow2 (ilog2 q - 52)" by (simp add: max_def)
  also have "\<dots> \<le> pow2 (ilog2 q)" by (rule pow2_mono) simp
  also have "\<dots> \<le> q" using assms by (rule ilog2_le)
  finally show ?thesis by simp
next
  case False
  then have "pow2 (max (ilog2 q) (- 1022) - 52) = pow2 (- 1074)" by (simp add: max_def)
  also have "\<dots> \<le> 1" by (rule pow2_le_1) simp
  finally show ?thesis by simp
qed

lemma round_binary64_bounds:
  assumes "0 \<le> q"
  shows "0 \<le> round_binary64 q \<and> round_binary64 q \<le> 2 * q + 1
         \<and> (1 \<le> q \<longrightarrow> q / 2 \<le> round_binary64 q)"
proof (cases "q = 0")
  case True
  then show ?thesis by (simp add: round_binary64_0)
next
  case False
  with assms have q: "0 < q" by simp
  define u where "u = pow2 (max (ilog2 q) (- 1022) - 52)"
  define m where "m = (of_int (round_half_even (q / u)) :: rat)"
  have u: "0 < u" "u \<le> max q 1" unfolding u_def using pow2_pos ulp_le[OF q] by simp_all
  have r: "round_binary64 q = m * u" unfolding m_def u_def by (rule round_binary64_pos_eq[OF q])
  have m0: "0 \<le> m" unfolding m_def using round_half_even_nonneg[of "q / u"] q u by simp
  have mb: "q / u - 1 / 2 \<le> m" "m \<le> q / u + 1 / 2"
    unfolding m_def using round_half_even_bounds[of "q / u"] by simp_all
  have up: "m * u \<le> q + u / 2"
  proof -
    have "m * u \<le> (q / u + 1 / 2) * u" using mb(2) u(1) by (simp add: mult_right_mono)
    also have "\<dots> = q + u / 2" using u(1) by (simp add: field_simps)
    finally show ?thesis .
  qed
  have lo: "q - u / 2 \<le> m * u"
  proof -
    have "(q / u - 1 / 2) * u \<le> m * u" using mb(1) u(1) by (simp add: mult_right_mono)
    moreover have "(q / u - 1 / 2) * u = q - u / 2" using u(1) by (simp add: field_simps)
    ultimately show ?thesis by simp
  qed
  have "m * u \<le> 2 * q + 1" using up u(2) q by (auto simp: max_def split: if_splits)
  moreover have "q / 2 \<le> m * u" if "1 \<le> q" using lo u(2) that by (auto simp: max_def split: if_splits)
  moreover have "0 \<le> m * u" using m0 u(1) by simp
  ultimately show ?thesis unfolding r by blast
qed

lemma pow2_1024_big: "4096 \<le> pow2 1024"
proof -
  have "pow2 12 \<le> pow2 1024" by (rule pow2_mono) simp
  then show ?thesis by (simp add: pow2_def)
qed

lemma to_double_small:
  assumes "0 \<le> q" "q \<le> 2000"
  shows "to_double q = Fin (round_binary64 q) \<and> 0 \<le> round_binary64 q
         \<and> round_binary64 q \<le> 2 * q + 1"
proof -
  from round_binary64_bounds[OF assms(1)]
  have b: "0 \<le> round_binary64 q" "round_binary64 q \<le> 2 * q + 1" by simp_all
  then have "round_binary64 q < 4096" using assms(2) by linarith
  with pow2_1024_big have "\<not> pow2 1024 \<le> round_binary64 q" by linarith
  moreover have "\<not> round_binary64 q \<le> - pow2 1024" using b(1) pow2_pos[of 1024] by linarith
  ultimately show ?thesis using b by (simp add: to_double_def Let_def)
qed

lemma np_true_divide_finite:
  assumes "0 \<le> k" "k \<le> n" "0 < n"
  shows "\<exists>r. np_true_divide k n = Fin r \<and> 0 \<le> r \<and> r \<le> 13"
proof -
  let ?rk = "round_binary64 (of_int k)" and ?rn = "round_binary64 (of_int n)"
  have k: "0 \<le> ?rk" "?rk \<le> 2 * of_int k + 1"
    using round_binary64_bounds[of "of_int k"] assms(1) by simp_all
  have n1: "(1::rat) \<le> of_int n" using assms(3) by simp
  then have n: "of_int n / 2 \<le> ?rn" using round_binary64_bounds[of "of_int n"] by simp
  then have npos: "0 < ?rn" using n1 by linarith
  have kn: "(of_int k :: rat) \<le> of_int n" using assms(2) by simp
  have "?rk / ?rn \<le> (2 * of_int k + 1) / (of_int n / 2)"
    by (rule frac_le) (use k n n1 in simp_all)
  also have "\<dots> \<le> 6"
    using n1 kn by (simp add: field_simps)
  finally have x: "?rk / ?rn \<le> 6" .
  have x0: "0 \<le> ?rk / ?rn" using k(1) npos by simp
  from to_double_small[OF x0] x
  have "to_double (?rk / ?rn) = Fin (round_binary64 (?rk / ?rn))"
    "0 \<le> round_binary64 (?rk / ?rn)" "round_binary64 (?rk / ?rn) \<le> 2 * (?rk / ?rn) + 1"
    by simp_all
  with x show ?thesis using assms(3) by (simp add: np_true_divide_def)
qed

lemma np_true_divide_self:
  assumes "0 < n"
  shows "np_true_divide n n = Fin 1"
proof -
  have "(1::rat) \<le> of_int n" using assms by simp
  then have "of_int n / 2 \<le> round_binary64 (of_int n)"
    using round_binary64_bounds[of "of_int n"] by simp
  with \<open>1 \<le> of_int n\<close> have "round_binary64 (of_int n) \<noteq> 0" by linarith
  then show ?thesis using assms by (simp add: np_true_divide_def to_double_1)
qed

lemma format_2f_shape:
  assumes "0 \<le> q"
  shows "two_decimal_percent (format_2f (Fin q) @ ''%'')"
proof -
  define n where "n = nat (round_half_even (\<bar>q\<bar> * 100))"
  have f: "format_2f (Fin q) = str_nat (n div 100) @ ''.''
              @ [digit_char (n mod 100 div 10), digit_char (n mod 10)]"
    using assms by (simp add: format_2f_def n_def Let_def)
  have "n mod 100 div 10 < 10" "n mod 10 < 10" by simp_all
  then have "is_digit (digit_char (n mod 100 div 10))" "is_digit (digit_char (n mod 10))"
    by (simp_all only: digit_char_digit)
  with str_nat_digits[of "n div 100"] show ?thesis
    unfolding f two_decimal_percent_def by (simp add: list_all_iff)
qed

lemma null_percentage_well_formed:
  assumes "0 \<le> k" "k \<le> n" "0 < n"
  shows "two_decimal_percent (percent_str (np_true_divide k n))"
proof -
  from np_true_divide_finite[OF assms] obtain r
    where r: "np_true_divide k n = Fin r" "0 \<le> r" "r \<le> 13" by blast
  have "0 \<le> r * 100" "r * 100 \<le> 2000" using r by simp_all
  from to_double_small[OF this]
  have "times_100 (Fin r) = Fin (round_binary64 (r * 100))" "0 \<le> round_binary64 (r * 100)"
    by (simp_all add: times_100_def)
  with format_2f_shape show ?thesis by (simp add: percent_str_def r(1))
qed

lemma nan_not_percentage: "\<not> two_decimal_percent ''nan%''"
  by (simp add: two_decimal_percent_def is_digit_def)

lemma str_nat_length: "length (str_nat n) \<le> n + 1"
proof (induction n rule: str_nat.induct)
  case (1 n)
  show ?case
  proof (cases "n < 10")
    case True
    then show ?thesis by (simp add: str_nat.simps[of n])
  next
    case False
    with 1 have "length (str_nat (n div 10)) \<le> n div 10 + 1" by simp
    moreover have "n div 10 + 2 \<le> n + 1" using False by simp
    ultimately show ?thesis using False by (simp add: str_nat.simps[of n])
  qed
qed

lemma format_2f_short:
  assumes "0 \<le> q" "q \<le> 3000"
  shows "length (format_2f (Fin q)) \<le> 3010"
proof -
  define n where "n = nat (round_half_even (q * 100))"
  have "of_int (round_half_even (q * 100)) \<le> q * 100 + 1 / 2"
    using round_half_even_bounds[of "q * 100"] by simp
  also have "\<dots> \<le> 300001" using assms(2) by simp
  finally have "round_half_even (q * 100) \<le> 300001"
    by (metis of_int_le_iff of_int_numeral)
  then have "n \<le> 300001" using assms(1) by (simp add: n_def)
  then have "n div 100 \<le> 3000" by simp
  with str_nat_length[of "n div 100"] have "length (str_nat (n div 100)) \<le> 3001" by simp
  moreover have "\<bar>q\<bar> = q" using assms(1) by simp
  ultimately show ?thesis using assms(1) by (simp add: format_2f_def Let_def n_def)
qed

lemma null_percentage_short:
  assumes "0 \<le> k" "k \<le> n" "0 < n"
  shows "length (percent_str (np_true_divide k n)) \<le> 32767"
proof -
  from np_true_divide_finite[OF assms] obtain r
    where r: "np_true_divide k n = Fin r" "0 \<le> r" "r \<le> 13" by blast
  have "0 \<le> r * 100" "r * 100 \<le> 2000" using r by simp_all
  from to_double_small[OF this]
  have t: "times_100 (Fin r) = Fin (round_binary64 (r * 100))" "0 \<le> round_binary64 (r * 100)"
    "round_binary64 (r * 100) \<le> 2 * (r * 100) + 1"
    by (simp_all add: times_100_def)
  have "round_binary64 (r * 100) \<le> 3000" using t(3) r(3) by simp
  from format_2f_short[OF t(2) this] show ?thesis by (simp add: percent_str_def r(1) t(1))
qed

lemma null_count_le: "null_count s \<le> length (cvalues s)"
  by (simp add: null_count_def)

lemma null_percentage_stored:
  assumes "wf_dataframe df" "j < length (df_columns df)"
  shows "take 32767 (null_percentage df (df_columns df ! j)) = null_percentage df (df_columns df ! j)"
proof -
  let ?c = "df_columns df ! j"
  have "?c \<in> set (df_columns df)" using assms(2) by simp
  then have "length (cvalues ?c) = df_len df"
    using assms(1) by (simp add: wf_dataframe_def list_all_iff)
  with null_count_le[of ?c] have le: "null_count ?c \<le> df_len df" by simp
  have "length (null_percentage df ?c) \<le> 32767"
  proof (cases "df_len df = 0")
    case True
    with le show ?thesis by (simp add: null_percentage_def np_true_divide_0_0 percent_str_NaN)
  next
    case False
    then show ?thesis
      unfolding null_percentage_def by (intro null_percentage_short) (use le in simp_all)
  qed
  then show ?thesis by simp
qed

lemma sample_summary_returns:
  assumes "distinct (map cname (df_columns df))"
    "list_all (\<lambda>c. writable_text (cname c)) (df_columns df)"
  shows "\<exists>wb'. create_summary_sheet L ''2025-08-01 10:00:00'' wb df = Inr wb'"
  by (rule create_summary_sheet_total)
     (use assms in \<open>simp_all add: list_all_iff writable_eval\<close>)

text \<open>
  Claim C4. When the summary sheet of a table with at least one row is created, the
  cell in column E of the row of each column (row 9 for the first) holds the null count
  divided by the number of rows, times 100, in the format \<^verbatim>\<open>.2f\<close>, followed by the
  percent sign. A column without a populated value reads \<^verbatim>\<open>100.00%\<close>, a fully
  populated one \<^verbatim>\<open>0.00%\<close>.
\<close>

theorem null_percentage_cell:
  assumes "create_summary_sheet L stamp wb df = Inr wb'"
    "wf_dataframe df" "j < length (df_columns df)" "0 < df_len df"
  shows "\<exists>ws. wb' = add_sheet wb ws
           \<and> cvalue (get_cell ws (9 + j) 5)
               = PStr (format_2f (times_100 (np_true_divide (int (null_count (df_columns df ! j)))
                                                           (int (df_len df)))) @ ''%'')
           \<and> (null_count (df_columns df ! j) = df_len df
                \<longrightarrow> cvalue (get_cell ws (9 + j) 5) = PStr ''100.00%'')
           \<and> (null_count (df_columns df ! j) = 0
                \<longrightarrow> cvalue (get_cell ws (9 + j) 5) = PStr ''0.00%'')"
proof -
  let ?k = "int (null_count (df_columns df ! j))" and ?n = "int (df_len df)"
  let ?ws = "summary_sheet_of L stamp df
               (new_worksheet (avoid_duplicate_name L (sheetnames wb) ''Data Summary''))"
  have wb': "wb' = add_sheet wb ?ws" by (rule create_summary_sheet_Inr[OF assms(1)])
  have c: "cvalue (get_cell ?ws (9 + j) 5) = PStr (percent_str (np_true_divide ?k ?n))"
    using summary_sheet_cell_E[OF assms(3), of L stamp] null_percentage_stored[OF assms(2,3)]
    by (simp add: null_percentage_def)
  have n: "0 < ?n" "?n \<noteq> 0" using assms(4) by simp_all
  have "percent_str (np_true_divide ?k ?n) = ''100.00%''" if "null_count (df_columns df ! j) = df_len df"
    using that np_true_divide_self[OF n(1)] by (simp add: percent_str_1)
  moreover have "percent_str (np_true_divide ?k ?n) = ''0.00%''" if "null_count (df_columns df ! j) = 0"
    using that np_true_divide_0[OF n(2)] by (simp add: percent_str_0)
  ultimately show ?thesis using wb' c by (auto simp: percent_str_def)
qed

theorem null_percentage_cell_witness:
  "\<exists>wb' ws. create_summary_sheet (sample_library table_nulls) ''2025-08-01 10:00:00''
            create_workbook table_nulls = Inr wb'
         \<and> wb' = add_sheet create_workbook ws
         \<and> cvalue (get_cell ws 9 5) = PStr ''100.00%''
         \<and> cvalue (get_cell ws 10 5) = PStr ''0.00%''"
proof -
  let ?L = "sample_library table_nulls"
  have d: "wf_dataframe table_nulls" "0 < df_len table_nulls"
    "0 < length (df_columns table_nulls)" "1 < length (df_columns table_nulls)"
    by (simp_all add: table_nulls_def wf_dataframe_def)
  have "distinct (map cname (df_columns table_nulls))"
    "list_all (\<lambda>c. writable_text (cname c)) (df_columns table_nulls)"
    by (simp_all add: table_nulls_def writable_eval)
  from sample_summary_returns[OF this, of ?L create_workbook]
  obtain wb' where r: "create_summary_sheet ?L ''2025-08-01 10:00:00''
            create_workbook table_nulls = Inr wb'" by blast
  have n0: "null_count (df_columns table_nulls ! 0) = df_len table_nulls"
    by (simp add: table_nulls_def null_count_def isnull_def)
  have n1: "null_count (df_columns table_nulls ! 1) = 0"
    by (simp add: table_nulls_def null_count_def isnull_def)
  from null_percentage_cell[OF r d(1) d(3) d(2)] n0
  obtain ws where a: "wb' = add_sheet create_workbook ws"
    "cvalue (get_cell ws 9 5) = PStr ''100.00%''"
    by auto
  from null_percentage_cell[OF r d(1) d(4) d(2)] n1
  obtain ws' where b: "wb' = add_sheet create_workbook ws'"
    "cvalue (get_cell ws' 10 5) = PStr ''0.00%''"
    by auto
  from a(1) b(1) have "ws' = ws" using add_sheet_inject[of create_workbook ws' ws] by simp
  with r a b show ?thesis by blast
qed

text \<open>
  Claim C10. The division has no guard: when the summary sheet is created, the cell of
  every column is the percentage text of the null count divided by the number of rows
  whatever that number is. On a table without rows the division is 0 / 0 for every
  column and every cell reads \<^verbatim>\<open>nan%\<close>; the cell is a two-decimal percentage exactly
  when the table has at least one row.
\<close>

theorem null_percentage_needs_rows:
  assumes "create_summary_sheet L stamp wb df = Inr wb'"
    "wf_dataframe df" "j < length (df_columns df)"
  shows "\<exists>ws s. wb' = add_sheet wb ws
           \<and> cvalue (get_cell ws (9 + j) 5) = PStr s
           \<and> s = percent_str (np_true_divide (int (null_count (df_columns df ! j)))
                                               (int (df_len df)))
           \<and> (df_len df = 0 \<longrightarrow> s = ''nan%'')
           \<and> (two_decimal_percent s \<longleftrightarrow> 0 < df_len df)"
proof -
  let ?c = "df_columns df ! j"
  let ?s = "percent_str (np_true_divide (int (null_count ?c)) (int (df_len df)))"
  let ?ws = "summary_sheet_of L stamp df
               (new_worksheet (avoid_duplicate_name L (sheetnames wb) ''Data Summary''))"
  have wb': "wb' = add_sheet wb ?ws" by (rule create_summary_sheet_Inr[OF assms(1)])
  have c: "cvalue (get_cell ?ws (9 + j) 5) = PStr ?s"
    using summary_sheet_cell_E[OF assms(3), of L stamp] null_percentage_stored[OF assms(2,3)]
    by (simp add: null_percentage_def)
  have "?c \<in> set (df_columns df)" using assms(3) by simp
  then have "length (cvalues ?c) = df_len df"
    using assms(2) by (simp add: wf_dataframe_def list_all_iff)
  with null_count_le[of ?c] have le: "null_count ?c \<le> df_len df" by simp
  have z: "?s = ''nan%''" if "df_len df = 0"
    using that le by (simp add: np_true_divide_0_0 percent_str_NaN)
  have p: "two_decimal_percent ?s" if "0 < df_len df"
    by (rule null_percentage_well_formed) (use that le in simp_all)
  have t: "two_decimal_percent ?s \<longleftrightarrow> 0 < df_len df"
    using z p nan_not_percentage by (cases "df_len df = 0") auto
  show ?thesis
    by (intro exI[of _ ?ws] exI[of _ ?s]) (use wb' c z t in simp)
qed

theorem null_percentage_needs_rows_witness:
  "\<exists>wb' ws. create_summary_sheet (sample_library table_no_rows) ''2025-08-01 10:00:00''
            create_workbook table_no_rows = Inr wb'
         \<and> wb' = add_sheet create_workbook ws
         \<and> cvalue (get_cell ws 9 5) = PStr ''nan%''
         \<and> cvalue (get_cell ws 10 5) = PStr ''nan%''
         \<and> \<not> two_decimal_percent ''nan%''"
proof -
  let ?L = "sample_library table_no_rows"
  have d: "wf_dataframe table_no_rows"
    "0 < length (df_columns table_no_rows)" "1 < length (df_columns table_no_rows)"
    "df_len table_no_rows = 0"
    by (simp_all add: table_no_rows_def wf_dataframe_def)
  have "distinct (map cname (df_columns table_no_rows))"
    "list_all (\<lambda>c. writable_text (cname c)) (df_columns table_no_rows)"
    by (simp_all add: table_no_rows_def writable_eval)
  from sample_summary_returns[OF this, of ?L create_workbook]
  obtain wb' where r: "create_summary_sheet ?L ''2025-08-01 10:00:00''
            create_workbook table_no_rows = Inr wb'" by blast
  from null_percentage_needs_rows[OF r d(1) d(2)] d(4)
  obtain ws where a: "wb' = add_sheet create_workbook ws"
    "cvalue (get_cell ws 9 5) = PStr ''nan%''"
    by auto
  from null_percentage_needs_rows[OF r d(1) d(3)] d(4)
  obtain ws' where b: "wb' = add_sheet create_workbook ws'"
    "cvalue (get_cell ws' 10 5) = PStr ''nan%''"
    by auto
  from a(1) b(1) have "ws' = ws" using add_sheet_inject[of create_workbook ws' ws] by simp
  with r a b nan_not_percentage show ?thesis by blast
qed

section \<open>The main data sheet and the column widths\<close>

lemma ws_used_max: "ws_used ws \<Longrightarrow> ws_max_row ws = hi_row ws \<and> ws_max_column ws = hi_col ws"
  by (auto simp: ws_used_def ws_max_row_def ws_max_column_def)

lemma ws_used_update_cell: "ws_used ws \<Longrightarrow> ws_used (update_cell f r c ws)"
  by (auto simp: ws_used_def)

lemma ws_used_update_cell_new:
  "hi_row ws \<le> current_row ws \<Longrightarrow> 1 \<le> r \<Longrightarrow> 1 \<le> c \<Longrightarrow> ws_used (update_cell f r c ws)"
  by (auto simp: ws_used_def)

lemma ws_used_fold:
  "(\<And>x w. ws_used w \<Longrightarrow> ws_used (g x w)) \<Longrightarrow> ws_used ws \<Longrightarrow> ws_used (fold g xs ws)"
  by (induction xs arbitrary: ws) simp_all

lemma fold_max_eq:
  "fold (\<lambda>r m. if m < f r then f r else m) rs (a::nat) = Max (insert a (f ` set rs))"
proof -
  have "(\<lambda>r m. if m < f r then f r else m) = (\<lambda>r. max (f r))"
    by (auto simp: fun_eq_iff max_def)
  then have "fold (\<lambda>r m. if m < f r then f r else m) rs a = fold max (map f rs) a"
    by (simp add: fold_map comp_def)
  also have "\<dots> = Max (set (a # map f rs))" by (rule Max.set_eq_fold[symmetric])
  finally show ?thesis by simp
qed

lemma fold_max_rows:
  assumes "1 \<le> n"
  shows "fold (\<lambda>r m. if m < f r then f r else m) [1..<n + 1] (0::nat) = Max (f ` {1..n})"
proof -
  have s: "set [1..<n + 1] = {1..n}" by auto
  have ne: "f ` {1..n} \<noteq> {}" using assms by auto
  have "fold (\<lambda>r m. if m < f r then f r else m) [1..<n + 1] 0
          = Max (insert 0 (f ` set [1..<n + 1]))" by (rule fold_max_eq)
  also have "\<dots> = Max (insert 0 (f ` {1..n}))" by (simp only: s)
  also have "\<dots> = max 0 (Max (f ` {1..n}))" using ne by (intro Max_insert) simp_all
  finally show ?thesis by simp
qed

lemma touch_fields:
  assumes "hi_row ws \<le> current_row ws" "\<forall>r \<in> set rs. r \<le> hi_row ws" "j \<le> hi_col ws"
  shows "hi_row (fold (\<lambda>r. update_cell (\<lambda>x. x) r j) rs ws) = hi_row ws
         \<and> hi_col (fold (\<lambda>r. update_cell (\<lambda>x. x) r j) rs ws) = hi_col ws
         \<and> current_row (fold (\<lambda>r. update_cell (\<lambda>x. x) r j) rs ws) = current_row ws
         \<and> column_width (fold (\<lambda>r. update_cell (\<lambda>x. x) r j) rs ws) = column_width ws
         \<and> tables (fold (\<lambda>r. update_cell (\<lambda>x. x) r j) rs ws) = tables ws
         \<and> charts (fold (\<lambda>r. update_cell (\<lambda>x. x) r j) rs ws) = charts ws
         \<and> title (fold (\<lambda>r. update_cell (\<lambda>x. x) r j) rs ws) = title ws"
  using assms
proof (induction rs arbitrary: ws)
  case Nil
  then show ?case by simp
next
  case (Cons r rs)
  let ?w = "update_cell (\<lambda>x. x) r j ws"
  have f: "hi_row ?w = hi_row ws" "hi_col ?w = hi_col ws" "current_row ?w = current_row ws"
    using Cons.prems by (simp_all add: max_def)
  have "hi_row ?w \<le> current_row ?w" "\<forall>r \<in> set rs. r \<le> hi_row ?w" "j \<le> hi_col ?w"
    using Cons.prems f by simp_all
  from Cons.IH[OF this] f show ?case by simp
qed

lemma touch_cells:
  "cells (fold (\<lambda>r. update_cell (\<lambda>x. x) r j) rs ws) (r', c') \<noteq> None
     \<longleftrightarrow> (r' \<in> set rs \<and> c' = j) \<or> cells ws (r', c') \<noteq> None"
  by (induction rs arbitrary: ws) (auto simp: cells_update_cell)

lemma adjust_column_facts:
  assumes "ws_used ws" "1 \<le> j" "j \<le> hi_col ws"
  shows "ws_used (adjust_column L cap (hi_row ws) j ws)"
    "hi_row (adjust_column L cap (hi_row ws) j ws) = hi_row ws"
    "hi_col (adjust_column L cap (hi_row ws) j ws) = hi_col ws"
    "tables (adjust_column L cap (hi_row ws) j ws) = tables ws"
    "charts (adjust_column L cap (hi_row ws) j ws) = charts ws"
    "title (adjust_column L cap (hi_row ws) j ws) = title ws"
    "column_width (adjust_column L cap (hi_row ws) j ws) j'
       = (if j' = j then Some (min (column_max_length L ws j + 2) cap) else column_width ws j')"
    "cells (adjust_column L cap (hi_row ws) j ws) (r', c') \<noteq> None
       \<longleftrightarrow> (1 \<le> r' \<and> r' \<le> hi_row ws \<and> c' = j) \<or> cells ws (r', c') \<noteq> None"
proof -
  let ?n = "hi_row ws"
  let ?w = "fold (\<lambda>r. update_cell (\<lambda>x. x) r j) [1..<?n + 1] ws"
  have u: "hi_row ws \<le> current_row ws" "1 \<le> ?n" using assms(1) by (simp_all add: ws_used_def)
  have "\<forall>r \<in> set [1..<?n + 1]. r \<le> hi_row ws" by auto
  from touch_fields[OF u(1) this assms(3)]
  have f: "hi_row ?w = hi_row ws" "hi_col ?w = hi_col ws" "current_row ?w = current_row ws"
    "column_width ?w = column_width ws" "tables ?w = tables ws" "charts ?w = charts ws"
    "title ?w = title ws"
    by simp_all
  have g: "get_cell ?w = get_cell ws" by (rule get_cell_fold_touch)
  have m: "fold (\<lambda>r m. if m < length (py_str L (cvalue (get_cell ws r j)))
                         then length (py_str L (cvalue (get_cell ws r j))) else m)
                 [1..<?n + 1] 0 = column_max_length L ws j"
    using fold_max_rows[OF u(2), of "\<lambda>r. length (py_str L (cvalue (get_cell ws r j)))"]
      ws_used_max[OF assms(1)]
    by (simp add: column_max_length_def)
  have a: "adjust_column L cap ?n j ws
            = ?w\<lparr>column_width := (column_width ?w)(j := Some (min (column_max_length L ws j + 2) cap))\<rparr>"
    unfolding adjust_column_def Let_def g m ..
  show "ws_used (adjust_column L cap ?n j ws)"
    unfolding a using assms(1) f by (simp add: ws_used_def)
  show "hi_row (adjust_column L cap ?n j ws) = hi_row ws"
    "hi_col (adjust_column L cap ?n j ws) = hi_col ws"
    "tables (adjust_column L cap ?n j ws) = tables ws"
    "charts (adjust_column L cap ?n j ws) = charts ws"
    "title (adjust_column L cap ?n j ws) = title ws"
    unfolding a using f by simp_all
  show "column_width (adjust_column L cap ?n j ws) j'
       = (if j' = j then Some (min (column_max_length L ws j + 2) cap) else column_width ws j')"
    unfolding a using f by simp
  have "cells (adjust_column L cap ?n j ws) = cells ?w" unfolding a by simp
  then show "cells (adjust_column L cap ?n j ws) (r', c') \<noteq> None
       \<longleftrightarrow> (1 \<le> r' \<and> r' \<le> hi_row ws \<and> c' = j) \<or> cells ws (r', c') \<noteq> None"
    using touch_cells[of j "[1..<?n + 1]" ws r' c'] by auto
qed

lemma column_max_length_cong:
  "get_cell ws' = get_cell ws \<Longrightarrow> hi_row ws' = hi_row ws \<Longrightarrow>
   column_max_length L ws' j = column_max_length L ws j"
  by (simp add: column_max_length_def ws_max_row_def)

lemma adjust_columns_facts:
  assumes "ws_used ws" "\<forall>j \<in> set js. 1 \<le> j \<and> j \<le> hi_col ws" "distinct js"
  shows "ws_used (fold (adjust_column L cap (hi_row ws)) js ws)
    \<and> hi_row (fold (adjust_column L cap (hi_row ws)) js ws) = hi_row ws
    \<and> hi_col (fold (adjust_column L cap (hi_row ws)) js ws) = hi_col ws
    \<and> tables (fold (adjust_column L cap (hi_row ws)) js ws) = tables ws
    \<and> charts (fold (adjust_column L cap (hi_row ws)) js ws) = charts ws
    \<and> title (fold (adjust_column L cap (hi_row ws)) js ws) = title ws
    \<and> (\<forall>j'. column_width (fold (adjust_column L cap (hi_row ws)) js ws) j'
          = (if j' \<in> set js then Some (min (column_max_length L ws j' + 2) cap)
             else column_width ws j'))
    \<and> (\<forall>r' c'. cells (fold (adjust_column L cap (hi_row ws)) js ws) (r', c') \<noteq> None
          \<longleftrightarrow> (1 \<le> r' \<and> r' \<le> hi_row ws \<and> c' \<in> set js) \<or> cells ws (r', c') \<noteq> None)"
  using assms
proof (induction js arbitrary: ws)
  case Nil
  then show ?case by simp
next
  case (Cons j js)
  let ?w = "adjust_column L cap (hi_row ws) j ws"
  have j: "1 \<le> j" "j \<le> hi_col ws" using Cons.prems(2) by simp_all
  note A = adjust_column_facts[OF Cons.prems(1) j, of L cap]
  have g: "get_cell ?w = get_cell ws" by (rule get_cell_adjust_column)
  have "\<forall>j \<in> set js. 1 \<le> j \<and> j \<le> hi_col ?w" using Cons.prems(2) A(3) by simp
  moreover have "distinct js" "j \<notin> set js" using Cons.prems(3) by simp_all
  ultimately have IH: "ws_used (fold (adjust_column L cap (hi_row ?w)) js ?w)
    \<and> hi_row (fold (adjust_column L cap (hi_row ?w)) js ?w) = hi_row ?w
    \<and> hi_col (fold (adjust_column L cap (hi_row ?w)) js ?w) = hi_col ?w
    \<and> tables (fold (adjust_column L cap (hi_row ?w)) js ?w) = tables ?w
    \<and> charts (fold (adjust_column L cap (hi_row ?w)) js ?w) = charts ?w
    \<and> title (fold (adjust_column L cap (hi_row ?w)) js ?w) = title ?w
    \<and> (\<forall>j'. column_width (fold (adjust_column L cap (hi_row ?w)) js ?w) j'
          = (if j' \<in> set js then Some (min (column_max_length L ?w j' + 2) cap)
             else column_width ?w j'))
    \<and> (\<forall>r' c'. cells (fold (adjust_column L cap (hi_row ?w)) js ?w) (r', c') \<noteq> None
          \<longleftrightarrow> (1 \<le> r' \<and> r' \<le> hi_row ?w \<and> c' \<in> set js) \<or> cells ?w (r', c') \<noteq> None)"
    using Cons.IH[OF A(1)] by blast
  have c: "column_max_length L ?w j' = column_max_length L ws j'" for j'
    by (rule column_max_length_cong[OF g A(2)])
  have f: "fold (adjust_column L cap (hi_row ws)) (j # js) ws
            = fold (adjust_column L cap (hi_row ?w)) js ?w"
    by (simp add: A(2))
  have cw: "column_width (fold (adjust_column L cap (hi_row ?w)) js ?w) j'
          = (if j' \<in> set (j # js) then Some (min (column_max_length L ws j' + 2) cap)
             else column_width ws j')" for j'
    using IH \<open>j \<notin> set js\<close> by (auto simp: A(7) c)
  have ce: "cells (fold (adjust_column L cap (hi_row ?w)) js ?w) (r', c') \<noteq> None
          \<longleftrightarrow> (1 \<le> r' \<and> r' \<le> hi_row ws \<and> c' \<in> set (j # js)) \<or> cells ws (r', c') \<noteq> None"
    for r' c'
  proof -
    have "cells (fold (adjust_column L cap (hi_row ?w)) js ?w) (r', c') \<noteq> None
          \<longleftrightarrow> (1 \<le> r' \<and> r' \<le> hi_row ws \<and> c' \<in> set js) \<or> cells ?w (r', c') \<noteq> None"
      using IH by (simp only: A(2))
    also have "cells ?w (r', c') \<noteq> None
          \<longleftrightarrow> (1 \<le> r' \<and> r' \<le> hi_row ws \<and> c' = j) \<or> cells ws (r', c') \<noteq> None"
      by (rule A(8))
    finally show ?thesis by (simp only: set_simps insert_iff) blast
  qed
  have rest: "ws_used (fold (adjust_column L cap (hi_row ?w)) js ?w)"
    "hi_row (fold (adjust_column L cap (hi_row ?w)) js ?w) = hi_row ws"
    "hi_col (fold (adjust_column L cap (hi_row ?w)) js ?w) = hi_col ws"
    "tables (fold (adjust_column L cap (hi_row ?w)) js ?w) = tables ws"
    "charts (fold (adjust_column L cap (hi_row ?w)) js ?w) = charts ws"
    "title (fold (adjust_column L cap (hi_row ?w)) js ?w) = title ws"
    using IH by (simp_all add: A(2,3,4,5,6))
  show ?case
    unfolding f using rest cw ce by blast
qed

lemma auto_adjust_widths_facts:
  assumes "ws_used ws"
  shows "get_cell (auto_adjust_widths L cap ws) = get_cell ws"
    "hi_row (auto_adjust_widths L cap ws) = hi_row ws"
    "hi_col (auto_adjust_widths L cap ws) = hi_col ws"
    "tables (auto_adjust_widths L cap ws) = tables ws"
    "charts (auto_adjust_widths L cap ws) = charts ws"
    "title (auto_adjust_widths L cap ws) = title ws"
    "1 \<le> j \<Longrightarrow> j \<le> hi_col ws \<Longrightarrow>
       column_width (auto_adjust_widths L cap ws) j = Some (min (column_max_length L ws j + 2) cap)"
    "cells (auto_adjust_widths L cap ws) (r, c) \<noteq> None
       \<longleftrightarrow> (1 \<le> r \<and> r \<le> hi_row ws \<and> 1 \<le> c \<and> c \<le> hi_col ws) \<or> cells ws (r, c) \<noteq> None"
proof -
  have m: "ws_max_row ws = hi_row ws" "ws_max_column ws = hi_col ws" "current_row ws \<noteq> 0"
    using assms ws_used_max by (auto simp: ws_used_def)
  have a: "auto_adjust_widths L cap ws
            = fold (adjust_column L cap (hi_row ws)) [1..<hi_col ws + 1] ws"
    by (simp add: auto_adjust_widths_def m)
  have "\<forall>j \<in> set [1..<hi_col ws + 1]. 1 \<le> j \<and> j \<le> hi_col ws" "distinct [1..<hi_col ws + 1]"
    by auto
  note F = adjust_columns_facts[OF assms this, of L cap]
  show "get_cell (auto_adjust_widths L cap ws) = get_cell ws"
    by (rule get_cell_auto_adjust_widths)
  show "hi_row (auto_adjust_widths L cap ws) = hi_row ws"
    "hi_col (auto_adjust_widths L cap ws) = hi_col ws"
    "tables (auto_adjust_widths L cap ws) = tables ws"
    "charts (auto_adjust_widths L cap ws) = charts ws"
    "title (auto_adjust_widths L cap ws) = title ws"
    unfolding a using F by simp_all
  show "column_width (auto_adjust_widths L cap ws) j = Some (min (column_max_length L ws j + 2) cap)"
    if "1 \<le> j" "j \<le> hi_col ws"
    unfolding a using F that by simp
  show "cells (auto_adjust_widths L cap ws) (r, c) \<noteq> None
       \<longleftrightarrow> (1 \<le> r \<and> r \<le> hi_row ws \<and> 1 \<le> c \<and> c \<le> hi_col ws) \<or> cells ws (r, c) \<noteq> None"
    unfolding a using F by auto
qed

lemma put_row_facts:
  "cells (put_row mk r n xs ws) (r', j')
           = (if r' = r \<and> n \<le> j' \<and> j' < n + length xs then Some (mk (xs ! (j' - n)))
              else cells ws (r', j'))
       \<and> hi_row (put_row mk r n xs ws) = (if xs = [] then hi_row ws else max (hi_row ws) r)
       \<and> hi_col (put_row mk r n xs ws)
           = (if xs = [] then hi_col ws else max (hi_col ws) (n + length xs - 1))
       \<and> current_row (put_row mk r n xs ws) = current_row ws
       \<and> column_width (put_row mk r n xs ws) = column_width ws
       \<and> tables (put_row mk r n xs ws) = tables ws
       \<and> charts (put_row mk r n xs ws) = charts ws
       \<and> title (put_row mk r n xs ws) = title ws"
proof (induction xs arbitrary: n ws)
  case Nil
  then show ?case by (auto simp: put_row_def)
next
  case (Cons x xs)
  let ?w = "ws\<lparr>cells := (cells ws)((r, n) := Some (mk x)),
               hi_row := max (hi_row ws) r, hi_col := max (hi_col ws) n\<rparr>"
  have step: "put_row mk r n (x # xs) ws = put_row mk r (Suc n) xs ?w" by (simp add: put_row_def)
  have nth: "(x # xs) ! (j' - n) = xs ! (j' - Suc n)" if "Suc n \<le> j'"
    using that by (simp add: Suc_diff_le)
  show ?case
    unfolding step using Cons.IH[of "Suc n" ?w]
    by (auto simp: nth max_def)
qed

lemma append_stored_put_row:
  "append_stored row ws
     = (put_row (\<lambda>v. default_cell\<lparr>cvalue := v\<rparr>) (current_row ws + 1) 1 row ws)
         \<lparr>current_row := current_row ws + 1\<rparr>"
  by (simp add: append_stored_def put_row_def Let_def)

lemma append_stored_facts:
  assumes "hi_row ws \<le> current_row ws"
  shows "cells (append_stored row ws) (r, j)
           = (if r = current_row ws + 1 \<and> 1 \<le> j \<and> j \<le> length row
              then Some (default_cell\<lparr>cvalue := row ! (j - 1)\<rparr>) else cells ws (r, j))"
    "current_row (append_stored row ws) = current_row ws + 1"
    "hi_row (append_stored row ws) = (if row = [] then hi_row ws else current_row ws + 1)"
    "hi_col (append_stored row ws) = (if row = [] then hi_col ws else max (hi_col ws) (length row))"
    "column_width (append_stored row ws) = column_width ws"
    "tables (append_stored row ws) = tables ws"
    "charts (append_stored row ws) = charts ws"
    "title (append_stored row ws) = title ws"
proof -
  note P = put_row_facts[of "\<lambda>v. default_cell\<lparr>cvalue := v\<rparr>" "current_row ws + 1" 1 row ws]
  note W = append_stored_put_row
  show "cells (append_stored row ws) (r, j)
           = (if r = current_row ws + 1 \<and> 1 \<le> j \<and> j \<le> length row
              then Some (default_cell\<lparr>cvalue := row ! (j - 1)\<rparr>) else cells ws (r, j))"
    using P[of r j] by (auto simp: W)
  show "current_row (append_stored row ws) = current_row ws + 1"
    by (simp add: W)
  show "hi_row (append_stored row ws) = (if row = [] then hi_row ws else current_row ws + 1)"
    using P[of r j] assms by (auto simp: W max_def)
  show "hi_col (append_stored row ws) = (if row = [] then hi_col ws else max (hi_col ws) (length row))"
    using P[of r j] by (auto simp: W)
  show "column_width (append_stored row ws) = column_width ws"
    "tables (append_stored row ws) = tables ws"
    "charts (append_stored row ws) = charts ws"
    "title (append_stored row ws) = title ws"
    using P[of r j] by (simp_all add: W)
qed

lemma append_rows_facts:
  assumes "hi_row ws \<le> current_row ws" "\<forall>row \<in> set rows. length row = C" "1 \<le> C"
  shows "cells (fold append_stored rows ws) (r, j)
           = (if current_row ws < r \<and> r \<le> current_row ws + length rows \<and> 1 \<le> j \<and> j \<le> C
              then Some (default_cell\<lparr>cvalue := rows ! (r - current_row ws - 1) ! (j - 1)\<rparr>)
              else cells ws (r, j))
       \<and> current_row (fold append_stored rows ws) = current_row ws + length rows
       \<and> hi_row (fold append_stored rows ws)
           = (if rows = [] then hi_row ws else current_row ws + length rows)
       \<and> hi_col (fold append_stored rows ws) = (if rows = [] then hi_col ws else max (hi_col ws) C)
       \<and> column_width (fold append_stored rows ws) = column_width ws
       \<and> tables (fold append_stored rows ws) = tables ws
       \<and> charts (fold append_stored rows ws) = charts ws
       \<and> title (fold append_stored rows ws) = title ws"
  using assms(1,2)
proof (induction rows arbitrary: ws)
  case Nil
  then show ?case by auto
next
  case (Cons row rows)
  let ?w = "append_stored row ws"
  have len: "length row = C" "row \<noteq> []" using Cons.prems(2) assms(3) by auto
  note A = append_stored_facts[OF Cons.prems(1), of row]
  have inv: "hi_row ?w \<le> current_row ?w" using A(2,3) len by simp
  have rest: "\<forall>row \<in> set rows. length row = C" using Cons.prems(2) by simp
  note IH = Cons.IH[OF inv rest]
  have nth: "(row # rows) ! (r - current_row ws - 1) = rows ! (r - current_row ?w - 1)"
    if "current_row ws + 1 < r" using that A(2) by (simp add: nth_Cons')
  have c: "cells (fold append_stored rows ?w) (r, j)
           = (if current_row ws < r \<and> r \<le> current_row ws + length (row # rows) \<and> 1 \<le> j \<and> j \<le> C
              then Some (default_cell\<lparr>cvalue := (row # rows) ! (r - current_row ws - 1) ! (j - 1)\<rparr>)
              else cells ws (r, j))"
  proof (cases "current_row ws + 1 < r")
    case True
    with IH nth[OF True] show ?thesis by (auto simp: A(1,2))
  next
    case False
    with IH show ?thesis by (auto simp: A(1,2) len)
  qed
  have "fold append_stored (row # rows) ws = fold append_stored rows ?w" by simp
  then show ?case using IH c by (auto simp: A len)
qed

lemma row_update_facts:
  assumes "ws_used ws" "r \<le> hi_row ws" "\<forall>c \<in> set cs. c \<le> hi_col ws" "distinct cs"
  shows "ws_used (fold (\<lambda>c. update_cell f r c) cs ws)
       \<and> hi_row (fold (\<lambda>c. update_cell f r c) cs ws) = hi_row ws
       \<and> hi_col (fold (\<lambda>c. update_cell f r c) cs ws) = hi_col ws
       \<and> column_width (fold (\<lambda>c. update_cell f r c) cs ws) = column_width ws
       \<and> tables (fold (\<lambda>c. update_cell f r c) cs ws) = tables ws
       \<and> charts (fold (\<lambda>c. update_cell f r c) cs ws) = charts ws
       \<and> title (fold (\<lambda>c. update_cell f r c) cs ws) = title ws
       \<and> (\<forall>r' c'. get_cell (fold (\<lambda>c. update_cell f r c) cs ws) r' c'
            = (if r' = r \<and> c' \<in> set cs then f (get_cell ws r' c') else get_cell ws r' c'))
       \<and> (\<forall>r' c'. cells (fold (\<lambda>c. update_cell f r c) cs ws) (r', c') \<noteq> None
            \<longleftrightarrow> (r' = r \<and> c' \<in> set cs) \<or> cells ws (r', c') \<noteq> None)"
  using assms
proof (induction cs arbitrary: ws)
  case Nil
  then show ?case by simp
next
  case (Cons c cs)
  let ?w = "update_cell f r c ws"
  have u: "ws_used ?w" using Cons.prems(1) by (rule ws_used_update_cell)
  have h: "hi_row ?w = hi_row ws" "hi_col ?w = hi_col ws"
    using Cons.prems by (simp_all add: max_def ws_used_def)
  have "r \<le> hi_row ?w" "\<forall>c \<in> set cs. c \<le> hi_col ?w" "distinct cs" "c \<notin> set cs"
    using Cons.prems h by simp_all
  note IH = Cons.IH[OF u this(1,2,3)]
  have g: "get_cell (fold (\<lambda>c. update_cell f r c) cs ?w) r' c'
            = (if r' = r \<and> c' \<in> set (c # cs) then f (get_cell ws r' c') else get_cell ws r' c')"
    for r' c'
    using IH \<open>c \<notin> set cs\<close> by (auto simp: get_cell_update_cell)
  have d: "cells (fold (\<lambda>c. update_cell f r c) cs ?w) (r', c') \<noteq> None
            \<longleftrightarrow> (r' = r \<and> c' \<in> set (c # cs)) \<or> cells ws (r', c') \<noteq> None" for r' c'
  proof -
    have "cells (fold (\<lambda>c. update_cell f r c) cs ?w) (r', c') \<noteq> None
            \<longleftrightarrow> (r' = r \<and> c' \<in> set cs) \<or> cells ?w (r', c') \<noteq> None"
      using IH by simp
    also have "cells ?w (r', c') \<noteq> None \<longleftrightarrow> (r' = r \<and> c' = c) \<or> cells ws (r', c') \<noteq> None"
      by (auto simp: cells_update_cell)
    finally show ?thesis by (simp only: set_simps insert_iff) blast
  qed
  have rest: "ws_used (fold (\<lambda>c. update_cell f r c) cs ?w)"
    "hi_row (fold (\<lambda>c. update_cell f r c) cs ?w) = hi_row ws"
    "hi_col (fold (\<lambda>c. update_cell f r c) cs ?w) = hi_col ws"
    "column_width (fold (\<lambda>c. update_cell f r c) cs ?w) = column_width ws"
    "tables (fold (\<lambda>c. update_cell f r c) cs ?w) = tables ws"
    "charts (fold (\<lambda>c. update_cell f r c) cs ?w) = charts ws"
    "title (fold (\<lambda>c. update_cell f r c) cs ?w) = title ws"
    using IH h by simp_all
  have "fold (\<lambda>c. update_cell f r c) (c # cs) ws = fold (\<lambda>c. update_cell f r c) cs ?w" by simp
  then show ?case using rest g d by presburger
qed

lemma update_range_facts:
  assumes "ws_used ws" "\<forall>r \<in> set rs. r \<le> hi_row ws" "\<forall>c \<in> set cs. c \<le> hi_col ws"
    "distinct rs" "distinct cs"
  shows "ws_used (update_range f rs cs ws)
       \<and> hi_row (update_range f rs cs ws) = hi_row ws
       \<and> hi_col (update_range f rs cs ws) = hi_col ws
       \<and> column_width (update_range f rs cs ws) = column_width ws
       \<and> tables (update_range f rs cs ws) = tables ws
       \<and> charts (update_range f rs cs ws) = charts ws
       \<and> title (update_range f rs cs ws) = title ws
       \<and> (\<forall>r' c'. get_cell (update_range f rs cs ws) r' c'
            = (if r' \<in> set rs \<and> c' \<in> set cs then f (get_cell ws r' c') else get_cell ws r' c'))
       \<and> (\<forall>r' c'. cells (update_range f rs cs ws) (r', c') \<noteq> None
            \<longleftrightarrow> (r' \<in> set rs \<and> c' \<in> set cs) \<or> cells ws (r', c') \<noteq> None)"
  using assms(1,2,3,4)
proof (induction rs arbitrary: ws)
  case Nil
  then show ?case by (simp add: update_range_def)
next
  case (Cons r rs)
  let ?w = "fold (\<lambda>c. update_cell f r c) cs ws"
  have r: "r \<le> hi_row ws" "r \<notin> set rs" "distinct rs" using Cons.prems by simp_all
  note R = row_update_facts[OF Cons.prems(1) r(1) Cons.prems(3) assms(5), of f]
  have "ws_used ?w" "\<forall>r \<in> set rs. r \<le> hi_row ?w" "\<forall>c \<in> set cs. c \<le> hi_col ?w"
    using R Cons.prems by simp_all
  note IH = Cons.IH[OF this r(3)]
  have st: "update_range f (r # rs) cs ws = update_range f rs cs ?w"
    by (simp add: update_range_def)
  have g: "get_cell (update_range f rs cs ?w) r' c'
            = (if r' \<in> set (r # rs) \<and> c' \<in> set cs then f (get_cell ws r' c') else get_cell ws r' c')"
    for r' c'
    using IH R r(2) by auto
  have d: "cells (update_range f rs cs ?w) (r', c') \<noteq> None
            \<longleftrightarrow> (r' \<in> set (r # rs) \<and> c' \<in> set cs) \<or> cells ws (r', c') \<noteq> None" for r' c'
  proof -
    have "cells (update_range f rs cs ?w) (r', c') \<noteq> None
            \<longleftrightarrow> (r' \<in> set rs \<and> c' \<in> set cs) \<or> cells ?w (r', c') \<noteq> None"
      using IH by simp
    also have "cells ?w (r', c') \<noteq> None \<longleftrightarrow> (r' = r \<and> c' \<in> set cs) \<or> cells ws (r', c') \<noteq> None"
      using R by simp
    finally show ?thesis by (simp only: set_simps insert_iff) blast
  qed
  have rest: "ws_used (update_range f rs cs ?w)"
    "hi_row (update_range f rs cs ?w) = hi_row ws"
    "hi_col (update_range f rs cs ?w) = hi_col ws"
    "column_width (update_range f rs cs ?w) = column_width ws"
    "tables (update_range f rs cs ?w) = tables ws"
    "charts (update_range f rs cs ?w) = charts ws"
    "title (update_range f rs cs ?w) = title ws"
    using IH R by simp_all
  show ?case unfolding st using rest g d by presburger
qed

lemma append_rows:
  assumes "hi_row ws \<le> current_row ws" "\<forall>row \<in> set rows. length row = C" "1 \<le> C"
  shows "cells (fold append_stored rows ws) (r, j)
           = (if current_row ws < r \<and> r \<le> current_row ws + length rows \<and> 1 \<le> j \<and> j \<le> C
              then Some (default_cell\<lparr>cvalue := rows ! (r - current_row ws - 1) ! (j - 1)\<rparr>)
              else cells ws (r, j))"
    "current_row (fold append_stored rows ws) = current_row ws + length rows"
    "hi_row (fold append_stored rows ws)
           = (if rows = [] then hi_row ws else current_row ws + length rows)"
    "hi_col (fold append_stored rows ws) = (if rows = [] then hi_col ws else max (hi_col ws) C)"
    "column_width (fold append_stored rows ws) = column_width ws"
    "tables (fold append_stored rows ws) = tables ws"
    "charts (fold append_stored rows ws) = charts ws"
    "title (fold append_stored rows ws) = title ws"
  using append_rows_facts[OF assms, of r j] by blast+

lemma update_range_in_box:
  assumes "ws_used ws" "\<forall>r \<in> set rs. r \<le> hi_row ws" "\<forall>c \<in> set cs. c \<le> hi_col ws"
    "distinct rs" "distinct cs"
  shows "ws_used (update_range f rs cs ws)"
    "hi_row (update_range f rs cs ws) = hi_row ws"
    "hi_col (update_range f rs cs ws) = hi_col ws"
    "column_width (update_range f rs cs ws) = column_width ws"
    "tables (update_range f rs cs ws) = tables ws"
    "charts (update_range f rs cs ws) = charts ws"
    "title (update_range f rs cs ws) = title ws"
    "get_cell (update_range f rs cs ws) r' c'
       = (if r' \<in> set rs \<and> c' \<in> set cs then f (get_cell ws r' c') else get_cell ws r' c')"
    "cells (update_range f rs cs ws) (r', c') \<noteq> None
       \<longleftrightarrow> (r' \<in> set rs \<and> c' \<in> set cs) \<or> cells ws (r', c') \<noteq> None"
  using update_range_facts[OF assms, of f] by blast+

lemma dataframe_to_rows_facts:
  assumes "wf_dataframe df"
  shows "length (dataframe_to_rows df) = df_len df + 1"
    "\<forall>row \<in> set (dataframe_to_rows df). length row = length (df_columns df)"
    "j < length (df_columns df) \<Longrightarrow>
       map (\<lambda>row. row ! j) (dataframe_to_rows df)
         = PStr (cname (df_columns df ! j)) # cvalues (df_columns df ! j)"
proof -
  show "length (dataframe_to_rows df) = df_len df + 1"
    by (simp add: dataframe_to_rows_def)
  show "\<forall>row \<in> set (dataframe_to_rows df). length row = length (df_columns df)"
    by (auto simp: dataframe_to_rows_def)
  show "map (\<lambda>row. row ! j) (dataframe_to_rows df)
         = PStr (cname (df_columns df ! j)) # cvalues (df_columns df ! j)"
    if j: "j < length (df_columns df)"
  proof -
    have "df_columns df ! j \<in> set (df_columns df)" using j by simp
    then have len: "length (cvalues (df_columns df ! j)) = df_len df"
      using assms by (simp add: wf_dataframe_def list_all_iff)
    have "map (\<lambda>i. cvalues (df_columns df ! j) ! i) [0..<df_len df] = cvalues (df_columns df ! j)"
      using map_nth[of "cvalues (df_columns df ! j)"] len by simp
    then show ?thesis using j by (simp add: dataframe_to_rows_def comp_def)
  qed
qed

lemma image_rows:
  "(\<lambda>r. g (rows ! (r - 1))) ` {1..length rows} = g ` set rows"
proof -
  have "(\<lambda>r. g (rows ! (r - 1))) ` {1..length rows} = (\<lambda>i. g (rows ! i)) ` {0..<length rows}"
  proof (intro set_eqI iffI)
    fix x assume "x \<in> (\<lambda>r. g (rows ! (r - 1))) ` {1..length rows}"
    then obtain r where r: "1 \<le> r" "r \<le> length rows" "x = g (rows ! (r - 1))" by auto
    then have "r - 1 \<in> {0..<length rows}" by auto
    with r(3) show "x \<in> (\<lambda>i. g (rows ! i)) ` {0..<length rows}" by blast
  next
    fix x assume "x \<in> (\<lambda>i. g (rows ! i)) ` {0..<length rows}"
    then obtain i where i: "i < length rows" "x = g (rows ! i)" by auto
    then have "Suc i \<in> {1..length rows}" "x = g (rows ! (Suc i - 1))" by auto
    then show "x \<in> (\<lambda>r. g (rows ! (r - 1))) ` {1..length rows}" by blast
  qed
  also have "\<dots> = g ` set rows"
  proof -
    have "set rows = (\<lambda>i. rows ! i) ` {0..<length rows}"
      by (auto simp: set_conv_nth)
    then show ?thesis by (simp only: image_image)
  qed
  finally show ?thesis .
qed

lemma cvalue_header_style [simp]: "cvalue (header_style x) = cvalue x"
  by (simp add: header_style_def)

lemma cvalue_data_style [simp]: "cvalue (data_style x) = cvalue x"
  by (simp add: data_style_def)

lemma get_cell_tables_update [simp]: "get_cell (ws\<lparr>tables := x\<rparr>) = get_cell ws"
  by (intro ext) (simp add: get_cell_def)

lemma main_sheet_of_facts:
  fixes L :: library and t :: string and df :: dataframe
  assumes wf: "wf_dataframe df"
  defines "ws \<equiv> main_sheet_of L df (new_worksheet t)"
  defines "R \<equiv> df_len df" and "C \<equiv> length (df_columns df)"
  shows "hi_row ws = R + 1" "hi_col ws = C" "title ws = t" "charts ws = []"
    "cells ws (r, c) \<noteq> None \<longleftrightarrow> 1 \<le> r \<and> r \<le> R + 1 \<and> 1 \<le> c \<and> c \<le> C"
    "j < C \<Longrightarrow> get_cell ws 1 (j + 1)
        = header_style (default_cell\<lparr>cvalue := PStr (cname (df_columns df ! j))\<rparr>)"
    "j < C \<Longrightarrow> i < R \<Longrightarrow> get_cell ws (i + 2) (j + 1)
        = data_style (default_cell\<lparr>cvalue := cvalues (df_columns df ! j) ! i\<rparr>)"
    "j < C \<Longrightarrow> column_width ws (j + 1)
        = Some (min (Max (set (map (\<lambda>v. length (py_str L v))
                   (PStr (cname (df_columns df ! j)) # cvalues (df_columns df ! j)))) + 2) 50)"
    "j < C \<Longrightarrow> column_width ws (j + 1) = Some (min (column_max_length L ws (j + 1) + 2) 50)"
proof -
  define cs where "cs = [1..<C + 1]"
  define rs where "rs = [2..<R + 2]"
  have cs: "set cs = {1..C}" "distinct cs" and rs: "set rs = {2..R + 1}" "distinct rs"
    by (auto simp: cs_def rs_def)
  let ?rows = "dataframe_to_rows df"
  let ?ws0 = "new_worksheet t"
  let ?ws1 = "fold append_stored ?rows ?ws0"
  let ?ws2 = "update_range header_style [1] cs ?ws1"
  let ?ws3 = "update_range data_style rs cs ?ws2"
  let ?ws4 = "auto_adjust_widths L 50 ?ws3"
  have C1: "1 \<le> C" using wf by (cases "df_columns df") (simp_all add: wf_dataframe_def C_def)
  note D = dataframe_to_rows_facts[OF wf]
  have len: "length ?rows = R + 1" "?rows \<noteq> []" using D(1) by (auto simp: R_def)
  have wd: "\<forall>row \<in> set ?rows. length row = C" using D(2) by (simp add: C_def)
  have "hi_row ?ws0 \<le> current_row ?ws0" by simp
  note A = append_rows[OF this wd C1]
  have c1: "cells ?ws1 (r, c)
             = (if 1 \<le> r \<and> r \<le> R + 1 \<and> 1 \<le> c \<and> c \<le> C
                then Some (default_cell\<lparr>cvalue := ?rows ! (r - 1) ! (c - 1)\<rparr>) else None)" for r c
    using A(1)[of r c] len by auto
  have f1: "hi_row ?ws1 = R + 1" "hi_col ?ws1 = C" "current_row ?ws1 = R + 1"
    "column_width ?ws1 = (\<lambda>_. None)" "tables ?ws1 = []" "charts ?ws1 = []" "title ?ws1 = t"
    using A(2-8) len by (simp_all add: fun_eq_iff)
  have u1: "ws_used ?ws1" using f1 C1 by (simp add: ws_used_def)
  have m1: "ws_max_column ?ws1 = C" "ws_max_row ?ws1 = R + 1"
    using ws_used_max[OF u1] f1 by simp_all
  have g1: "get_cell ?ws1 r c = default_cell\<lparr>cvalue := ?rows ! (r - 1) ! (c - 1)\<rparr>"
    if "1 \<le> r" "r \<le> R + 1" "1 \<le> c" "c \<le> C" for r c
    using that by (simp add: get_cell_def c1)
  have "\<forall>r \<in> set [1]. r \<le> hi_row ?ws1" "\<forall>c \<in> set cs. c \<le> hi_col ?ws1" "distinct [1::nat]"
    using f1 cs by auto
  note U2 = update_range_in_box[OF u1 this cs(2), of header_style]
  have u2: "ws_used ?ws2" and f2: "hi_row ?ws2 = R + 1" "hi_col ?ws2 = C"
    "column_width ?ws2 = (\<lambda>_. None)" "tables ?ws2 = []" "charts ?ws2 = []" "title ?ws2 = t"
    using U2(1-7) f1 by simp_all
  have m2: "ws_max_column ?ws2 = C" "ws_max_row ?ws2 = R + 1"
    using ws_used_max[OF u2] f2 by simp_all
  have "\<forall>r \<in> set rs. r \<le> hi_row ?ws2" "\<forall>c \<in> set cs. c \<le> hi_col ?ws2"
    using f2 cs rs by auto
  note U3 = update_range_in_box[OF u2 this rs(2) cs(2), of data_style]
  have u3: "ws_used ?ws3" and f3: "hi_row ?ws3 = R + 1" "hi_col ?ws3 = C"
    "column_width ?ws3 = (\<lambda>_. None)" "tables ?ws3 = []" "charts ?ws3 = []" "title ?ws3 = t"
    using U3(1-7) f2 by simp_all
  have g3: "get_cell ?ws3 r c
              = (if 2 \<le> r \<and> r \<le> R + 1 \<and> 1 \<le> c \<and> c \<le> C then data_style (get_cell ?ws1 r c)
                 else if r = 1 \<and> 1 \<le> c \<and> c \<le> C then header_style (get_cell ?ws1 r c)
                 else get_cell ?ws1 r c)" for r c
    unfolding U3(8) U2(8) by (auto simp: cs rs)
  have d3: "cells ?ws3 (r, c) \<noteq> None \<longleftrightarrow> 1 \<le> r \<and> r \<le> R + 1 \<and> 1 \<le> c \<and> c \<le> C" for r c
  proof -
    have "cells ?ws3 (r, c) \<noteq> None
            \<longleftrightarrow> (r \<in> set rs \<and> c \<in> set cs) \<or> cells ?ws2 (r, c) \<noteq> None"
      by (rule U3(9))
    also have "cells ?ws2 (r, c) \<noteq> None
            \<longleftrightarrow> (r \<in> set [1] \<and> c \<in> set cs) \<or> cells ?ws1 (r, c) \<noteq> None"
      by (rule U2(9))
    finally show ?thesis by (auto simp: c1 cs rs)
  qed
  note W = auto_adjust_widths_facts[OF u3, where L = L and cap = 50]
  have l1: "[1..<ws_max_column ?ws1 + 1] = cs" using m1(1) by (simp add: cs_def)
  have l2: "[1..<ws_max_column ?ws2 + 1] = cs" using m2(1) by (simp add: cs_def)
  have l3: "[2..<ws_max_row ?ws2 + 1] = rs" using m2(2) by (simp add: rs_def cs_def)
  have ws4: "main_sheet_of L df ?ws0
               = (if 0 < R then ?ws4\<lparr>tables := tables ?ws4 @ [data_table ?ws4]\<rparr> else ?ws4)"
    unfolding main_sheet_of_def format_main_sheet_def Let_def l1 l2 l3 R_def ..
  have gw: "get_cell ws = get_cell ?ws3"
    unfolding ws_def ws4 using W(1) by simp
  show "hi_row ws = R + 1" "hi_col ws = C" "title ws = t" "charts ws = []"
    unfolding ws_def ws4 using W(2-6) f3 by simp_all
  show "cells ws (r, c) \<noteq> None \<longleftrightarrow> 1 \<le> r \<and> r \<le> R + 1 \<and> 1 \<le> c \<and> c \<le> C"
    unfolding ws_def ws4 using W(8)[of r c] d3[of r c] f3 by auto
  show hd: "get_cell ws 1 (j + 1)
        = header_style (default_cell\<lparr>cvalue := PStr (cname (df_columns df ! j))\<rparr>)" if j: "j < C"
  proof -
    have "?rows ! 0 ! j = PStr (cname (df_columns df ! j))"
      using j by (simp add: dataframe_to_rows_def C_def)
    then show ?thesis using j g1[of 1 "j + 1"] g3[of 1 "j + 1"] by (simp add: gw)
  qed
  show "get_cell ws (i + 2) (j + 1)
        = data_style (default_cell\<lparr>cvalue := cvalues (df_columns df ! j) ! i\<rparr>)"
    if j: "j < C" and i: "i < R"
  proof -
    have "?rows ! (i + 1) ! j = cvalues (df_columns df ! j) ! i"
      using j i by (simp add: dataframe_to_rows_def C_def R_def)
    then show ?thesis using j i g1[of "i + 2" "j + 1"] g3[of "i + 2" "j + 1"] by (simp add: gw)
  qed
  have cw: "column_width ws (j + 1) = Some (min (column_max_length L ?ws3 (j + 1) + 2) 50)"
    if j: "j < C"
    unfolding ws_def ws4 using W(7)[of "j + 1"] j f3 by simp
  have cm: "column_max_length L ws (j + 1) = column_max_length L ?ws3 (j + 1)"
    by (rule column_max_length_cong[OF gw]) (use \<open>hi_row ws = R + 1\<close> f3(1) in simp)
  show "column_width ws (j + 1) = Some (min (column_max_length L ws (j + 1) + 2) 50)" if "j < C"
    using cw[OF that] cm by simp
  show "column_width ws (j + 1)
        = Some (min (Max (set (map (\<lambda>v. length (py_str L v))
                   (PStr (cname (df_columns df ! j)) # cvalues (df_columns df ! j)))) + 2) 50)"
    if j: "j < C"
  proof -
    have v: "cvalue (get_cell ?ws3 r (j + 1)) = ?rows ! (r - 1) ! j" if "r \<in> {1..R + 1}" for r
      using that j g1[of r "j + 1"] g3[of r "j + 1"] by auto
    have "column_max_length L ?ws3 (j + 1)
            = Max ((\<lambda>r. length (py_str L (?rows ! (r - 1) ! j))) ` {1..length ?rows})"
      unfolding column_max_length_def using ws_used_max[OF u3] f3 v len
      by (intro arg_cong[where f = Max] image_cong) simp_all
    also have "\<dots> = Max ((\<lambda>row. length (py_str L (row ! j))) ` set ?rows)"
      by (simp only: image_rows[of "\<lambda>row. length (py_str L (row ! j))" ?rows])
    also have "(\<lambda>row. length (py_str L (row ! j))) ` set ?rows
                 = set (map (\<lambda>v. length (py_str L v)) (map (\<lambda>row. row ! j) ?rows))"
      by (simp add: image_image)
    also have "map (\<lambda>row. row ! j) ?rows = PStr (cname (df_columns df ! j)) # cvalues (df_columns df ! j)"
      using D(3)[of j] j by (simp add: C_def)
    finally show ?thesis using cw[OF j] by simp
  qed
qed

lemma enumerate_map_stored:
  "enumerate n (map f xs) = map (\<lambda>(j, v). (j, f v)) (enumerate n xs)"
  by (induction xs arbitrary: n) simp_all

lemma append_cells_cases:
  "for_each (\<lambda>(j, v) w.
               bind (bind_value v)
                    (\<lambda>x. Inr (w\<lparr>cells := (cells w)((r, j) := Some (default_cell\<lparr>cvalue := x\<rparr>)),
                                hi_row := max (hi_row w) r, hi_col := max (hi_col w) j\<rparr>)))
            items (ws :: worksheet)
     = (if list_all (\<lambda>(j, v). writable v) items
        then Inr (fold (\<lambda>(j, v) w.
                          w\<lparr>cells := (cells w)((r, j) := Some (default_cell\<lparr>cvalue := v\<rparr>)),
                            hi_row := max (hi_row w) r, hi_col := max (hi_col w) j\<rparr>)
                       (map (\<lambda>(j, v). (j, stored v)) items) ws)
        else Inl IllegalCharacterError)"
proof -
  define F where "F = (\<lambda>(j, v) (w :: worksheet).
               bind (bind_value v)
                    (\<lambda>x. Inr (w\<lparr>cells := (cells w)((r, j) := Some (default_cell\<lparr>cvalue := x\<rparr>)),
                                hi_row := max (hi_row w) r, hi_col := max (hi_col w) j\<rparr>)))"
  define G where "G = (\<lambda>(j, v) (w :: worksheet).
                          w\<lparr>cells := (cells w)((r, j) := Some (default_cell\<lparr>cvalue := v\<rparr>)),
                            hi_row := max (hi_row w) r, hi_col := max (hi_col w) j\<rparr>)"
  have step: "F (j, v) w = (if writable v then Inr (G (j, stored v) w)
                            else Inl IllegalCharacterError)" for j v w
    by (simp add: F_def G_def bind_value_cases)
  have "for_each F items ws
     = (if list_all (\<lambda>(j, v). writable v) items
        then Inr (fold G (map (\<lambda>(j, v). (j, stored v)) items) ws)
        else Inl IllegalCharacterError)" for ws
    by (induction items arbitrary: ws) (auto simp: step)
  then show ?thesis unfolding F_def G_def .
qed

lemma list_all_enumerate:
  "list_all (\<lambda>(j, v). P v) (enumerate n xs) = list_all P xs"
  by (induction xs arbitrary: n) simp_all

lemma ws_append_cases:
  "ws_append row ws
     = (if list_all writable row then Inr (append_stored (map stored row) ws)
        else Inl IllegalCharacterError)"
  by (simp add: ws_append_def append_stored_def Let_def append_cells_cases list_all_enumerate
        enumerate_map_stored)

lemma append_rows_cases:
  "for_each ws_append rows ws
     = (if list_all (list_all writable) rows
        then Inr (fold append_stored (map (map stored) rows) ws)
        else Inl IllegalCharacterError)"
  by (induction rows arbitrary: ws) (simp_all add: ws_append_cases)

lemma wf_stored_frame: "wf_dataframe df \<Longrightarrow> wf_dataframe (stored_frame df)"
  by (simp add: wf_dataframe_def stored_frame_def list_all_iff)

lemma stored_frame_fields [simp]:
  "df_len (stored_frame df) = df_len df"
  "length (df_columns (stored_frame df)) = length (df_columns df)"
  "j < length (df_columns df) \<Longrightarrow>
     cname (df_columns (stored_frame df) ! j) = take 32767 (cname (df_columns df ! j))"
  "j < length (df_columns df) \<Longrightarrow>
     cvalues (df_columns (stored_frame df) ! j) = map stored (cvalues (df_columns df ! j))"
  by (simp_all add: stored_frame_def)

lemma stored_rows:
  assumes "wf_dataframe df"
  shows "map (map stored) (dataframe_to_rows df) = dataframe_to_rows (stored_frame df)"
proof -
  have len: "\<forall>c \<in> set (df_columns df). length (cvalues c) = df_len df"
    using assms by (simp add: wf_dataframe_def list_all_iff)
  have "map stored (map (\<lambda>c. cvalues c ! i) (df_columns df))
          = map (\<lambda>c. cvalues c ! i)
              (map (\<lambda>c. c\<lparr>cname := take 32767 (cname c), cvalues := map stored (cvalues c)\<rparr>)
                 (df_columns df))"
    if "i < df_len df" for i
    using that len by simp
  then show ?thesis
    by (simp add: dataframe_to_rows_def stored_frame_def comp_def)
qed

lemma writable_rows:
  assumes "wf_dataframe df"
  shows "list_all (list_all writable) (dataframe_to_rows df) \<longleftrightarrow> writable_frame df"
proof -
  have len: "\<forall>c \<in> set (df_columns df). length (cvalues c) = df_len df"
    using assms by (simp add: wf_dataframe_def list_all_iff)
  have "(\<forall>i < df_len df. \<forall>c \<in> set (df_columns df). writable (cvalues c ! i))
          \<longleftrightarrow> (\<forall>c \<in> set (df_columns df). \<forall>v \<in> set (cvalues c). writable v)"
    using len by (metis in_set_conv_nth)
  then show ?thesis
    by (auto simp: dataframe_to_rows_def writable_frame_def list_all_iff writable_def)
qed

lemma main_data_sheet_cases:
  assumes "wf_dataframe df"
  shows "main_data_sheet L df ws
           = (if writable_frame df then Inr (main_sheet_of L (stored_frame df) ws)
              else Inl IllegalCharacterError)"
  by (simp add: main_data_sheet_def append_rows_cases writable_rows[OF assms]
        stored_rows[OF assms] main_sheet_of_def)

lemma create_main_data_sheet_cases:
  assumes "wf_dataframe df"
  shows "create_main_data_sheet L wb df
     = (if writable_frame df
        then Inr (add_sheet wb (main_sheet_of L (stored_frame df)
                    (new_worksheet (avoid_duplicate_name L (sheetnames wb) ''Complete Data''))))
        else Inl IllegalCharacterError)"
  by (simp add: create_main_data_sheet_def create_sheet_def main_data_sheet_cases[OF assms])

text \<open>
  Claim C8, as the code has it. For a loaded table (at least one column, every column
  as long as the index) with \<open>R\<close> rows and \<open>C\<close> columns, the main data sheet is
  created exactly when no label and no text of the table has a control character that a
  cell refuses; otherwise \<^verbatim>\<open>ws.append\<close> raises \<^verbatim>\<open>IllegalCharacterError\<close>. When it
  is created, it has exactly the cells of the rows 1 to \<open>R + 1\<close> and the columns 1 to
  \<open>C\<close>: row 1 holds the labels, in bold and with the solid header fill, and row
  \<open>i + 2\<close> holds the values of the row \<open>i\<close> of the table, a text cut to its first
  32767 characters and every other value as it is.
\<close>

theorem main_data_sheet_content:
  assumes "wf_dataframe df"
  shows "(writable_frame df \<longrightarrow> (\<exists>wb'. create_main_data_sheet L wb df = Inr wb'))
     \<and> (\<not> writable_frame df \<longrightarrow> create_main_data_sheet L wb df = Inl IllegalCharacterError)
     \<and> (\<forall>wb'. create_main_data_sheet L wb df = Inr wb' \<longrightarrow>
          (\<exists>ws. wb' = add_sheet wb ws
             \<and> ws_max_row ws = df_len df + 1 \<and> ws_max_column ws = length (df_columns df)
             \<and> (\<forall>r c. cells ws (r, c) \<noteq> None
                    \<longleftrightarrow> 1 \<le> r \<and> r \<le> df_len df + 1 \<and> 1 \<le> c \<and> c \<le> length (df_columns df))
             \<and> (\<forall>j < length (df_columns df).
                   cvalue (get_cell ws 1 (j + 1)) = PStr (take 32767 (cname (df_columns df ! j)))
                 \<and> bold (cfont (get_cell ws 1 (j + 1)))
                 \<and> cfill (get_cell ws 1 (j + 1)) = Some header_fill
                 \<and> fill_type header_fill = ''solid''
                 \<and> (\<forall>i < df_len df. cvalue (get_cell ws (i + 2) (j + 1))
                                        = stored (cvalues (df_columns df ! j) ! i)))))"
proof (intro conjI impI allI)
  let ?t = "avoid_duplicate_name L (sheetnames wb) ''Complete Data''"
  let ?ws = "main_sheet_of L (stored_frame df) (new_worksheet ?t)"
  note E = create_main_data_sheet_cases[OF assms, of L wb]
  show "\<exists>wb'. create_main_data_sheet L wb df = Inr wb'" if "writable_frame df"
    using that by (simp add: E)
  show "create_main_data_sheet L wb df = Inl IllegalCharacterError" if "\<not> writable_frame df"
    using that by (simp add: E)
  fix wb' assume r: "create_main_data_sheet L wb df = Inr wb'"
  then have wb': "wb' = add_sheet wb ?ws" by (simp add: E split: if_splits)
  note F = main_sheet_of_facts[OF wf_stored_frame[OF assms], where L = L and t = ?t]
  have len: "\<forall>c \<in> set (df_columns df). length (cvalues c) = df_len df"
    using assms by (simp add: wf_dataframe_def list_all_iff)
  have C1: "1 \<le> length (df_columns df)"
    using assms by (cases "df_columns df") (simp_all add: wf_dataframe_def)
  have m: "ws_max_row ?ws = df_len df + 1" "ws_max_column ?ws = length (df_columns df)"
    using F(1,2) C1 by (auto simp: ws_max_row_def ws_max_column_def)
  have h: "cvalue (get_cell ?ws 1 (j + 1)) = PStr (take 32767 (cname (df_columns df ! j)))
         \<and> bold (cfont (get_cell ?ws 1 (j + 1)))
         \<and> cfill (get_cell ?ws 1 (j + 1)) = Some header_fill
         \<and> fill_type header_fill = ''solid''
         \<and> (\<forall>i < df_len df. cvalue (get_cell ?ws (i + 2) (j + 1))
                                = stored (cvalues (df_columns df ! j) ! i))"
    if j: "j < length (df_columns df)" for j
  proof -
    have "df_columns df ! j \<in> set (df_columns df)" using j by simp
    with len have l: "length (cvalues (df_columns df ! j)) = df_len df" by blast
    have j': "j < length (df_columns (stored_frame df))" using j by simp
    show ?thesis
      using F(6)[OF j'] F(7)[OF j'] j l
      by (simp add: header_style_def header_font_def header_fill_def data_style_def)
  qed
  have H: "\<forall>j < length (df_columns df).
           cvalue (get_cell ?ws 1 (j + 1)) = PStr (take 32767 (cname (df_columns df ! j)))
         \<and> bold (cfont (get_cell ?ws 1 (j + 1)))
         \<and> cfill (get_cell ?ws 1 (j + 1)) = Some header_fill
         \<and> fill_type header_fill = ''solid''
         \<and> (\<forall>i < df_len df. cvalue (get_cell ?ws (i + 2) (j + 1))
                                = stored (cvalues (df_columns df ! j) ! i))"
    using h by blast
  have d: "\<forall>r c. cells ?ws (r, c) \<noteq> None
            \<longleftrightarrow> 1 \<le> r \<and> r \<le> df_len df + 1 \<and> 1 \<le> c \<and> c \<le> length (df_columns df)"
    using F(5) by simp
  show "\<exists>ws. wb' = add_sheet wb ws
             \<and> ws_max_row ws = df_len df + 1 \<and> ws_max_column ws = length (df_columns df)
             \<and> (\<forall>r c. cells ws (r, c) \<noteq> None
                    \<longleftrightarrow> 1 \<le> r \<and> r \<le> df_len df + 1 \<and> 1 \<le> c \<and> c \<le> length (df_columns df))
             \<and> (\<forall>j < length (df_columns df).
                   cvalue (get_cell ws 1 (j + 1)) = PStr (take 32767 (cname (df_columns df ! j)))
                 \<and> bold (cfont (get_cell ws 1 (j + 1)))
                 \<and> cfill (get_cell ws 1 (j + 1)) = Some header_fill
                 \<and> fill_type header_fill = ''solid''
                 \<and> (\<forall>i < df_len df. cvalue (get_cell ws (i + 2) (j + 1))
                                        = stored (cvalues (df_columns df ! j) ! i)))"
    by (intro exI[of _ ?ws] conjI) (rule wb' m d H)+
qed

text \<open>The table with the header A, B and the rows (1, x), (2, y): 3 rows, 2 columns.\<close>

theorem main_data_sheet_content_witness:
  "\<exists>wb' ws. create_main_data_sheet (sample_library table_ab) create_workbook table_ab = Inr wb'
        \<and> wb' = add_sheet create_workbook ws
        \<and> ws_max_row ws = 3 \<and> ws_max_column ws = 2
        \<and> cvalue (get_cell ws 1 1) = PStr ''A'' \<and> cvalue (get_cell ws 1 2) = PStr ''B''
        \<and> cvalue (get_cell ws 2 1) = PInt 1 \<and> cvalue (get_cell ws 2 2) = PStr ''x''
        \<and> cvalue (get_cell ws 3 1) = PInt 2 \<and> cvalue (get_cell ws 3 2) = PStr ''y''
        \<and> bold (cfont (get_cell ws 1 1)) \<and> bold (cfont (get_cell ws 1 2))
        \<and> cfill (get_cell ws 1 1) = Some header_fill \<and> cfill (get_cell ws 1 2) = Some header_fill
        \<and> cells ws (4, 1) = None \<and> cells ws (1, 3) = None"
proof -
  let ?L = "sample_library table_ab"
  have wf: "wf_dataframe table_ab" by (simp add: wf_dataframe_def table_ab_def)
  have wr: "writable_frame table_ab" by (simp add: writable_frame_def table_ab_def writable_eval)
  from main_data_sheet_content[OF wf, of ?L create_workbook] wr
  obtain wb' where r: "create_main_data_sheet ?L create_workbook table_ab = Inr wb'" by blast
  with main_data_sheet_content[OF wf, of ?L create_workbook]
  obtain ws where ws: "wb' = add_sheet create_workbook ws"
    "ws_max_row ws = df_len table_ab + 1" "ws_max_column ws = length (df_columns table_ab)"
    "\<forall>r c. cells ws (r, c) \<noteq> None
        \<longleftrightarrow> 1 \<le> r \<and> r \<le> df_len table_ab + 1 \<and> 1 \<le> c \<and> c \<le> length (df_columns table_ab)"
    "\<forall>j < length (df_columns table_ab).
           cvalue (get_cell ws 1 (j + 1)) = PStr (take 32767 (cname (df_columns table_ab ! j)))
         \<and> bold (cfont (get_cell ws 1 (j + 1)))
         \<and> cfill (get_cell ws 1 (j + 1)) = Some header_fill
         \<and> fill_type header_fill = ''solid''
         \<and> (\<forall>i < df_len table_ab.
               cvalue (get_cell ws (i + 2) (j + 1)) = stored (cvalues (df_columns table_ab ! j) ! i))"
    by blast
  have l: "length (df_columns table_ab) = 2" "df_len table_ab = 2" by (simp_all add: table_ab_def)
  have c0: "cvalue (get_cell ws 1 (0 + 1)) = PStr (take 32767 (cname (df_columns table_ab ! 0)))
         \<and> bold (cfont (get_cell ws 1 (0 + 1)))
         \<and> cfill (get_cell ws 1 (0 + 1)) = Some header_fill
         \<and> cvalue (get_cell ws (0 + 2) (0 + 1)) = stored (cvalues (df_columns table_ab ! 0) ! 0)
         \<and> cvalue (get_cell ws (1 + 2) (0 + 1)) = stored (cvalues (df_columns table_ab ! 0) ! 1)"
    using ws(5) l by simp
  have c1: "cvalue (get_cell ws 1 (1 + 1)) = PStr (take 32767 (cname (df_columns table_ab ! 1)))
         \<and> bold (cfont (get_cell ws 1 (1 + 1)))
         \<and> cfill (get_cell ws 1 (1 + 1)) = Some header_fill
         \<and> cvalue (get_cell ws (0 + 2) (1 + 1)) = stored (cvalues (df_columns table_ab ! 1) ! 0)
         \<and> cvalue (get_cell ws (1 + 2) (1 + 1)) = stored (cvalues (df_columns table_ab ! 1) ! 1)"
    using ws(5) l by simp
  from ws(4) have "cells ws (4, 1) \<noteq> None
      \<longleftrightarrow> 1 \<le> (4::nat) \<and> 4 \<le> df_len table_ab + 1 \<and> 1 \<le> (1::nat)
          \<and> 1 \<le> length (df_columns table_ab)"
    by blast
  then have n1: "cells ws (4, 1) = None" by (simp add: l)
  from ws(4) have "cells ws (1, 3) \<noteq> None
      \<longleftrightarrow> 1 \<le> (1::nat) \<and> 1 \<le> df_len table_ab + 1 \<and> 1 \<le> (3::nat)
          \<and> 3 \<le> length (df_columns table_ab)"
    by blast
  then have n2: "cells ws (1, 3) = None" by (simp add: l)
  note n = n1 n2
  show ?thesis
    by (rule exI[of _ wb'], rule exI[of _ ws])
       (use r ws(1,2,3) c0 c1 n in \<open>simp add: table_ab_def numeral_2_eq_2 numeral_3_eq_3\<close>)
qed

text \<open>
  The claim as stated fails: a table with a control character in a text value is loaded,
  and the main data sheet is not written, \<^verbatim>\<open>ws.append\<close> raises and the conversion
  returns \<^verbatim>\<open>False\<close>.
\<close>

theorem control_character_refused:
  "wf_dataframe table_control_char
   \<and> load_data (sample_library table_control_char) control_fs ''data.csv''
       = Inr table_control_char
   \<and> create_main_data_sheet (sample_library table_control_char) create_workbook
       table_control_char = Inl IllegalCharacterError
   \<and> convert (sample_library table_control_char) sample_clock
       (init ''data.csv'' None) control_fs = (False, control_fs)"
proof -
  let ?L = "sample_library table_control_char"
  have wf: "wf_dataframe table_control_char"
    by (simp add: wf_dataframe_def table_control_char_def)
  have s: "strip_columns table_control_char = table_control_char"
    by (simp add: strip_columns_def table_control_char_def py_strip_def py_isspace_def)
  have l: "load_data ?L control_fs ''data.csv'' = Inr table_control_char"
    by (simp add: load_data_def try_except_def sample_library_def control_fs_def s)
  have "\<not> writable_frame table_control_char"
    by (simp add: writable_frame_def table_control_char_def writable_eval)
  then have m: "create_main_data_sheet ?L create_workbook table_control_char
                  = Inl IllegalCharacterError"
    by (simp add: create_main_data_sheet_cases[OF wf])
  have "convert ?L sample_clock (init ''data.csv'' None) control_fs = (False, control_fs)"
    by (simp add: convert_def build_workbook_def init_def l m)
  with wf l m show ?thesis by blast
qed

lemma ws_used_put_value: "ws_used ws \<Longrightarrow> ws_used (put_value r c v ws)"
  by (simp add: put_value_def ws_used_update_cell)

lemma ws_used_summary_head_of: "ws_used (summary_head_of stamp df (new_worksheet t))"
  by (simp add: summary_head_of_def apply_all_def put_value_def set_font_def update_range_def
        ws_used_def)

lemma ws_used_info_rows:
  "ws_used ws \<Longrightarrow> ws_used (fold (\<lambda>(i, s). info_row df i s) items ws)"
proof (rule ws_used_fold)
  fix x :: "nat \<times> column" and w
  assume "ws_used w"
  then show "ws_used ((case x of (i, s) \<Rightarrow> info_row df i s) w)"
    by (cases x) (simp add: info_row_def apply_all_def ws_used_put_value)
qed

lemma ws_used_stats_block: "ws_used ws \<Longrightarrow> ws_used (stats_block_of L df ws)"
  unfolding stats_block_of_def Let_def apply_all_def
  by (auto simp: put_value_def set_font_def intro!: ws_used_update_cell ws_used_fold)

text \<open>
  Claim C7. On the main data sheet, whenever it is created, the width of the column of
  each table column is the smaller of 50 and the length of the longest text among
  \<^verbatim>\<open>str()\<close> of the values of its cells, the label and the values of the column as
  the cells hold them, plus 2. On the summary sheet, whenever it is created, the width
  of every column up to \<open>max_column\<close> is the smaller of 30 and the length of the longest
  \<^verbatim>\<open>str(cell.value)\<close> in the column, plus 2.
\<close>

theorem column_widths:
  "(wf_dataframe df \<and> create_main_data_sheet L wb df = Inr wbm \<longrightarrow>
      (\<exists>ws. wbm = add_sheet wb ws
         \<and> (\<forall>j < length (df_columns df).
               column_width ws (j + 1)
                 = Some (min (Max (set (map (\<lambda>v. length (py_str L (stored v)))
                           (PStr (cname (df_columns df ! j)) # cvalues (df_columns df ! j)))) + 2) 50)
             \<and> column_width ws (j + 1) = Some (min (column_max_length L ws (j + 1) + 2) 50))))
   \<and> (create_summary_sheet L stamp wb df = Inr wbs \<longrightarrow>
      (\<exists>ws. wbs = add_sheet wb ws
         \<and> (\<forall>j. 1 \<le> j \<and> j \<le> ws_max_column ws \<longrightarrow>
               column_width ws j = Some (min (column_max_length L ws j + 2) 30))))"
proof (intro conjI impI)
  assume a: "wf_dataframe df \<and> create_main_data_sheet L wb df = Inr wbm"
  then have wf: "wf_dataframe df" by simp
  let ?t = "avoid_duplicate_name L (sheetnames wb) ''Complete Data''"
  let ?ws = "main_sheet_of L (stored_frame df) (new_worksheet ?t)"
  have wbm: "wbm = add_sheet wb ?ws"
    using a by (simp add: create_main_data_sheet_cases[OF wf] split: if_splits)
  note F = main_sheet_of_facts[OF wf_stored_frame[OF wf], where L = L and t = ?t]
  have "column_width ?ws (j + 1)
                 = Some (min (Max (set (map (\<lambda>v. length (py_str L (stored v)))
                           (PStr (cname (df_columns df ! j)) # cvalues (df_columns df ! j)))) + 2) 50)
             \<and> column_width ?ws (j + 1) = Some (min (column_max_length L ?ws (j + 1) + 2) 50)"
    if j: "j < length (df_columns df)" for j
  proof -
    have j': "j < length (df_columns (stored_frame df))" using j by simp
    show ?thesis using F(8)[OF j'] F(9)[OF j'] j by (simp add: comp_def)
  qed
  with wbm show "\<exists>ws. wbm = add_sheet wb ws
         \<and> (\<forall>j < length (df_columns df).
               column_width ws (j + 1)
                 = Some (min (Max (set (map (\<lambda>v. length (py_str L (stored v)))
                           (PStr (cname (df_columns df ! j)) # cvalues (df_columns df ! j)))) + 2) 50)
             \<and> column_width ws (j + 1) = Some (min (column_max_length L ws (j + 1) + 2) 50))"
    by blast
next
  assume a: "create_summary_sheet L stamp wb df = Inr wbs"
  let ?t = "avoid_duplicate_name L (sheetnames wb) ''Data Summary''"
  define ws1 where "ws1 = fold (\<lambda>(i, s). info_row df i s) (enumerate 9 (df_columns df))
                  (summary_head_of stamp df (new_worksheet ?t))"
  define ws2 where "ws2 = (if 0 < length (numeric_cols df) then stats_block_of L df ws1 else ws1)"
  let ?ws = "auto_adjust_widths L 30 ws2"
  have wb': "wbs = add_sheet wb ?ws"
    using create_summary_sheet_Inr[OF a] by (simp add: summary_sheet_of_def Let_def ws1_def ws2_def)
  have "ws_used ws1" unfolding ws1_def by (rule ws_used_info_rows) (rule ws_used_summary_head_of)
  then have u: "ws_used ws2" by (simp add: ws_used_stats_block ws2_def)
  note W = auto_adjust_widths_facts[OF u, where L = L and cap = 30]
  have cm: "column_max_length L ?ws j = column_max_length L ws2 j" for j
    by (rule column_max_length_cong[OF W(1) W(2)])
  have "1 \<le> hi_col ws2" using u by (simp add: ws_used_def)
  then have mc: "ws_max_column ?ws = hi_col ws2"
    using W(3) by (simp add: ws_max_column_def)
  have "\<forall>j. 1 \<le> j \<and> j \<le> ws_max_column ?ws \<longrightarrow>
               column_width ?ws j = Some (min (column_max_length L ?ws j + 2) 30)"
    unfolding cm mc using W(7) by blast
  with wb' show "\<exists>ws. wbs = add_sheet wb ws
         \<and> (\<forall>j. 1 \<le> j \<and> j \<le> ws_max_column ws \<longrightarrow>
               column_width ws j = Some (min (column_max_length L ws j + 2) 30))"
    by blast
qed

theorem column_widths_witness:
  "(\<exists>wbm ws. create_main_data_sheet (sample_library table_ab) create_workbook table_ab = Inr wbm
         \<and> wbm = add_sheet create_workbook ws
         \<and> column_width ws 1 = Some 3 \<and> column_width ws 2 = Some 3)
   \<and> (\<exists>wbm ws. create_main_data_sheet (sample_library table_long_label) create_workbook
              table_long_label = Inr wbm
         \<and> wbm = add_sheet create_workbook ws
         \<and> column_width ws 1 = Some 50)
   \<and> (\<exists>wbs ws. create_summary_sheet (sample_library table_ab) ''2025-08-01 10:00:00''
              create_workbook table_ab = Inr wbs
         \<and> wbs = add_sheet create_workbook ws
         \<and> column_width ws 1
             = Some (min (column_max_length (sample_library table_ab) ws 1 + 2) 30))"
proof (intro conjI)
  let ?L = "sample_library table_ab"
  have wf: "wf_dataframe table_ab" by (simp add: wf_dataframe_def table_ab_def)
  have "writable_frame table_ab" by (simp add: writable_frame_def table_ab_def writable_eval)
  then obtain wbm where r: "create_main_data_sheet ?L create_workbook table_ab = Inr wbm"
    by (simp add: create_main_data_sheet_cases[OF wf])
  from column_widths[of table_ab ?L create_workbook wbm] wf r
  obtain ws where ws: "wbm = add_sheet create_workbook ws"
    "\<forall>j < length (df_columns table_ab).
        column_width ws (j + 1)
          = Some (min (Max (set (map (\<lambda>v. length (py_str ?L (stored v)))
               (PStr (cname (df_columns table_ab ! j)) # cvalues (df_columns table_ab ! j)))) + 2) 50)"
    by blast
  have "column_width ws (0 + 1) = Some 3" "column_width ws (1 + 1) = Some 3"
    using ws(2) by (simp_all add: table_ab_def py_str_def str_int_def str_nat.simps)
  then have "column_width ws 1 = Some 3 \<and> column_width ws 2 = Some 3"
    by (simp add: numeral_2_eq_2)
  with r ws(1) show "\<exists>wbm ws. create_main_data_sheet ?L create_workbook table_ab = Inr wbm
         \<and> wbm = add_sheet create_workbook ws
         \<and> column_width ws 1 = Some 3 \<and> column_width ws 2 = Some 3"
    by blast
next
  let ?L = "sample_library table_long_label"
  have wf: "wf_dataframe table_long_label" by (simp add: wf_dataframe_def table_long_label_def)
  have "writable_frame table_long_label"
    by (simp add: writable_frame_def table_long_label_def writable_eval)
  then obtain wbm where r: "create_main_data_sheet ?L create_workbook table_long_label = Inr wbm"
    by (simp add: create_main_data_sheet_cases[OF wf])
  from column_widths[of table_long_label ?L create_workbook wbm] wf r
  obtain ws where ws: "wbm = add_sheet create_workbook ws"
    "\<forall>j < length (df_columns table_long_label).
        column_width ws (j + 1)
          = Some (min (Max (set (map (\<lambda>v. length (py_str ?L (stored v)))
               (PStr (cname (df_columns table_long_label ! j))
                # cvalues (df_columns table_long_label ! j)))) + 2) 50)"
    by blast
  have "column_width ws (0 + 1) = Some 50"
    using ws(2) by (simp add: table_long_label_def py_str_def str_int_def str_nat.simps)
  with r ws(1) show "\<exists>wbm ws. create_main_data_sheet ?L create_workbook table_long_label = Inr wbm
         \<and> wbm = add_sheet create_workbook ws \<and> column_width ws 1 = Some 50"
    by auto
next
  let ?L = "sample_library table_ab"
  have "distinct (map cname (df_columns table_ab))"
    "list_all (\<lambda>c. writable_text (cname c)) (df_columns table_ab)"
    by (simp_all add: table_ab_def writable_eval)
  from sample_summary_returns[OF this, of ?L create_workbook]
  obtain wbs where r: "create_summary_sheet ?L ''2025-08-01 10:00:00'' create_workbook table_ab
        = Inr wbs" by blast
  from column_widths[of table_ab ?L create_workbook _ "''2025-08-01 10:00:00''" wbs] r
  obtain ws where ws: "wbs = add_sheet create_workbook ws"
    "\<forall>j. 1 \<le> j \<and> j \<le> ws_max_column ws \<longrightarrow>
        column_width ws j = Some (min (column_max_length ?L ws j + 2) 30)"
    by blast
  have "1 \<le> ws_max_column ws" by (simp add: ws_max_column_def)
  with ws(2) have "column_width ws 1 = Some (min (column_max_length ?L ws 1 + 2) 30)" by simp
  with r ws(1) show "\<exists>wbs ws. create_summary_sheet ?L ''2025-08-01 10:00:00''
              create_workbook table_ab = Inr wbs
         \<and> wbs = add_sheet create_workbook ws
         \<and> column_width ws 1
             = Some (min (column_max_length ?L ws 1 + 2) 30)"
    by auto
qed

section \<open>Two runs on the same input\<close>

lemma same_but_B5_refl: "same_but_B5 w w"
  by (simp add: same_but_B5_def)

lemma same_get_cell:
  assumes "same_but_B5 w1 w2" "(r, c) \<noteq> (5, 2)"
  shows "cvalue (get_cell w1 r c) = cvalue (get_cell w2 r c)"
proof -
  have "map_option cvalue (cells w1 (r, c)) = map_option cvalue (cells w2 (r, c))"
    using assms by (simp add: same_but_B5_def)
  then show ?thesis
    by (cases "cells w1 (r, c)"; cases "cells w2 (r, c)") (simp_all add: get_cell_def)
qed

lemma same_update_cell:
  assumes "value_fun f" "same_but_B5 w1 w2"
  shows "same_but_B5 (update_cell f r c w1) (update_cell f r c w2)"
proof -
  have "map_option cvalue (cells (update_cell f r c w1) pos)
          = map_option cvalue (cells (update_cell f r c w2) pos)" if "pos \<noteq> (5, 2)" for pos
  proof (cases "pos = (r, c)")
    case True
    with that have "cvalue (get_cell w1 r c) = cvalue (get_cell w2 r c)"
      using same_get_cell[OF assms(2)] by simp
    then have "cvalue (f (get_cell w1 r c)) = cvalue (f (get_cell w2 r c))"
      using assms(1) unfolding value_fun_def by blast
    with True show ?thesis by (simp add: cells_update_cell)
  next
    case False
    from assms(2) that
    have "map_option cvalue (cells w1 pos) = map_option cvalue (cells w2 pos)"
      unfolding same_but_B5_def by blast
    with False show ?thesis by (simp add: cells_update_cell)
  qed
  moreover from assms(2) have "title w1 = title w2" "hi_row w1 = hi_row w2"
    "hi_col w1 = hi_col w2" "current_row w1 = current_row w2"
    unfolding same_but_B5_def by blast+
  ultimately show ?thesis unfolding same_but_B5_def by simp
qed

lemma same_put_B5:
  assumes "same_but_B5 w1 w2"
  shows "same_but_B5 (put_value 5 2 v1 w1) (put_value 5 2 v2 w2)"
proof -
  from assms have t: "title w1 = title w2" "hi_row w1 = hi_row w2"
    "hi_col w1 = hi_col w2" "current_row w1 = current_row w2"
    and c: "\<And>pos. pos \<noteq> (5, 2) \<Longrightarrow>
              map_option cvalue (cells w1 pos) = map_option cvalue (cells w2 pos)"
    unfolding same_but_B5_def by blast+
  show ?thesis
    unfolding same_but_B5_def put_value_def using t c by (simp add: cells_update_cell)
qed

lemma value_fun_id: "value_fun (\<lambda>x. x)"
  by (simp add: value_fun_def)

lemma value_fun_value: "value_fun (\<lambda>x. x\<lparr>cvalue := v\<rparr>)"
  by (simp add: value_fun_def)

lemma value_fun_font: "value_fun (\<lambda>x. x\<lparr>cfont := f\<rparr>)"
  by (simp add: value_fun_def)

lemma value_fun_header: "value_fun summary_header_style"
  by (simp add: value_fun_def summary_header_style_def)

lemma keeps_same_update_cell: "value_fun f \<Longrightarrow> keeps_same (update_cell f r c)"
  by (simp add: keeps_same_def same_update_cell)

lemma keeps_same_put_value: "keeps_same (put_value r c v)"
  unfolding put_value_def by (rule keeps_same_update_cell) (rule value_fun_value)

lemma keeps_same_set_font: "keeps_same (set_font r c f)"
  unfolding set_font_def by (rule keeps_same_update_cell) (rule value_fun_font)

lemma keeps_same_fold:
  "(\<And>x. x \<in> set xs \<Longrightarrow> keeps_same (g x)) \<Longrightarrow> keeps_same (fold g xs)"
proof (induction xs)
  case Nil
  then show ?case by (simp add: keeps_same_def)
next
  case (Cons x xs)
  then have "keeps_same (g x)" "keeps_same (fold g xs)" by simp_all
  then show ?case by (simp add: keeps_same_def)
qed

lemma keeps_same_comp: "keeps_same g \<Longrightarrow> keeps_same h \<Longrightarrow> keeps_same (\<lambda>w. g (h w))"
  by (simp add: keeps_same_def)

lemma keeps_same_apply_all:
  "(\<And>g. g \<in> set gs \<Longrightarrow> keeps_same g) \<Longrightarrow> keeps_same (apply_all gs)"
proof -
  assume a: "\<And>g. g \<in> set gs \<Longrightarrow> keeps_same g"
  have "apply_all gs = fold (\<lambda>f. f) gs" by (intro ext) (simp add: apply_all_def)
  then show ?thesis using keeps_same_fold[of gs "\<lambda>f. f"] a by simp
qed

lemma keeps_same_row: "value_fun f \<Longrightarrow> keeps_same (fold (\<lambda>c. update_cell f r c) cs)"
  by (rule keeps_same_fold) (rule keeps_same_update_cell)

lemma keeps_same_update_range: "value_fun f \<Longrightarrow> keeps_same (update_range f rs cs)"
proof -
  assume f: "value_fun f"
  have "update_range f rs cs = fold (\<lambda>r. fold (\<lambda>c. update_cell f r c) cs) rs"
    by (intro ext) (simp add: update_range_def)
  moreover have "keeps_same (fold (\<lambda>r. fold (\<lambda>c. update_cell f r c) cs) rs)"
    by (rule keeps_same_fold) (rule keeps_same_row[OF f])
  ultimately show ?thesis by simp
qed

lemma keeps_sameD: "keeps_same g \<Longrightarrow> same_but_B5 w1 w2 \<Longrightarrow> same_but_B5 (g w1) (g w2)"
  by (simp add: keeps_same_def)

lemma same_width_update:
  "same_but_B5 w1 w2 \<Longrightarrow> same_but_B5 (w1\<lparr>column_width := a\<rparr>) (w2\<lparr>column_width := b\<rparr>)"
  unfolding same_but_B5_def by simp

lemma same_adjust_column:
  assumes "same_but_B5 w1 w2"
  shows "same_but_B5 (adjust_column L cap n j w1) (adjust_column L cap n j w2)"
proof -
  have "keeps_same (fold (\<lambda>r. update_cell (\<lambda>x. x) r j) [1..<n + 1])"
    by (rule keeps_same_fold) (rule keeps_same_update_cell[OF value_fun_id])
  from keeps_sameD[OF this assms]
  show ?thesis unfolding adjust_column_def Let_def by (rule same_width_update)
qed

lemma same_adjust_columns:
  "same_but_B5 w1 w2 \<Longrightarrow>
   same_but_B5 (fold (adjust_column L cap n) js w1) (fold (adjust_column L cap n) js w2)"
proof (induction js arbitrary: w1 w2)
  case Nil
  then show ?case by simp
next
  case (Cons j js)
  from Cons.IH[OF same_adjust_column[OF Cons.prems]] show ?case by simp
qed

lemma same_auto_adjust_widths:
  assumes "same_but_B5 w1 w2"
  shows "same_but_B5 (auto_adjust_widths L cap w1) (auto_adjust_widths L cap w2)"
proof -
  from assms have eq: "current_row w1 = current_row w2" "hi_row w1 = hi_row w2"
    "hi_col w1 = hi_col w2"
    unfolding same_but_B5_def by blast+
  then have m: "ws_max_row w1 = ws_max_row w2" "ws_max_column w1 = ws_max_column w2"
    by (simp_all add: ws_max_row_def ws_max_column_def)
  show ?thesis
  proof (cases "current_row w2 = 0")
    case True
    with assms eq(1) show ?thesis by (simp add: auto_adjust_widths_def)
  next
    case False
    with eq(1) m same_adjust_columns[OF assms] show ?thesis
      by (simp add: auto_adjust_widths_def)
  qed
qed

lemma keeps_same_info_row: "keeps_same (info_row df i s)"
proof -
  have "info_row df i s = apply_all
       [put_value i 1 (PStr (cname s)),
        put_value i 2 (PStr (dtype_str (cdtype s))),
        put_value i 3 (PInt (int (count s))),
        put_value i 4 (PInt (int (null_count s))),
        put_value i 5 (PStr (percent_str (np_true_divide (int (null_count s)) (int (df_len df)))))]"
    by (intro ext) (simp add: info_row_def)
  moreover have "keeps_same (apply_all
       [put_value i 1 (PStr (cname s)),
        put_value i 2 (PStr (dtype_str (cdtype s))),
        put_value i 3 (PInt (int (count s))),
        put_value i 4 (PInt (int (null_count s))),
        put_value i 5 (PStr (percent_str (np_true_divide (int (null_count s)) (int (df_len df)))))])"
    by (rule keeps_same_apply_all) (auto intro: keeps_same_put_value)
  ultimately show ?thesis by simp
qed

lemma keeps_same_info_rows:
  "keeps_same (fold (\<lambda>(i, s). info_row df i s) items)"
proof (rule keeps_same_fold)
  fix x :: "nat \<times> column"
  show "keeps_same (case x of (i, s) \<Rightarrow> info_row df i s)"
    by (cases x) (simp add: keeps_same_info_row)
qed

lemma keeps_same_stats_block: "keeps_same (stats_block_of L df)"
proof -
  let ?k = "length (df_columns df) + 11"
  let ?b = "fold (\<lambda>(i, header) w.
                    update_cell summary_header_style (?k + 2) (i + 1)
                      (put_value (?k + 2) (i + 1) (PStr header) w))
                 (enumerate 0 (''Statistic'' # numeric_cols df))"
  let ?inner = "\<lambda>i st. fold (\<lambda>(j, col). put_value (?k + 3 + i) (j + 2) (stat_cell L df col st))
                      (enumerate 0 (numeric_cols df))"
  let ?c = "fold (\<lambda>(i, (st, label)) w. ?inner i st (put_value (?k + 3 + i) 1 (PStr label) w))
              (enumerate 0 stat_index)"
  have b: "keeps_same ?b"
  proof (rule keeps_same_fold)
    fix x :: "nat \<times> string"
    obtain i header where x: "x = (i, header)" by (cases x)
    have "keeps_same (\<lambda>w. update_cell summary_header_style (?k + 2) (i + 1)
                      (put_value (?k + 2) (i + 1) (PStr header) w))"
      by (rule keeps_same_comp[OF keeps_same_update_cell[OF value_fun_header]
            keeps_same_put_value])
    then show "keeps_same (case x of (i, header) \<Rightarrow> \<lambda>w.
             update_cell summary_header_style (?k + 2) (i + 1)
               (put_value (?k + 2) (i + 1) (PStr header) w))"
      unfolding x by (simp only: prod.case)
  qed
  have inner: "keeps_same (?inner i st)" for i st
  proof (rule keeps_same_fold)
    fix x :: "nat \<times> string"
    obtain j col where x: "x = (j, col)" by (cases x)
    show "keeps_same (case x of (j, col) \<Rightarrow>
             put_value (?k + 3 + i) (j + 2) (stat_cell L df col st))"
      unfolding x by (simp only: prod.case) (rule keeps_same_put_value)
  qed
  have c: "keeps_same ?c"
  proof (rule keeps_same_fold)
    fix x :: "nat \<times> stat \<times> string"
    obtain i st label where x: "x = (i, st, label)" by (cases x)
    have "keeps_same (\<lambda>w. ?inner i st (put_value (?k + 3 + i) 1 (PStr label) w))"
      by (rule keeps_same_comp[OF inner keeps_same_put_value])
    then show "keeps_same (case x of (i, st, label) \<Rightarrow> \<lambda>w.
                 ?inner i st (put_value (?k + 3 + i) 1 (PStr label) w))"
      unfolding x by (simp only: prod.case)
  qed
  have "stats_block_of L df
          = apply_all [put_value ?k 1 (PStr ''Numeric Columns Statistics''),
                       set_font ?k 1 (title_font 14), ?b, ?c]"
    by (simp add: stats_block_of_def Let_def)
  moreover have "keeps_same (apply_all [put_value ?k 1 (PStr ''Numeric Columns Statistics''),
                       set_font ?k 1 (title_font 14), ?b, ?c])"
    by (rule keeps_same_apply_all) (use b c in \<open>auto intro: keeps_same_put_value keeps_same_set_font\<close>)
  ultimately show ?thesis by simp
qed

lemma same_summary_head:
  "same_but_B5 (summary_head_of s1 df ws) (summary_head_of s2 df ws)"
proof -
  let ?pre = "apply_all
       [put_value 1 1 (PStr ''Dataset Overview''),
        set_font 1 1 (title_font 16),
        put_value 3 1 (PStr ''Total Records:''),
        put_value 3 2 (PInt (int (df_len df))),
        put_value 4 1 (PStr ''Total Columns:''),
        put_value 4 2 (PInt (int (length (df_columns df)))),
        put_value 5 1 (PStr ''File Generated:'')]"
  let ?post = "apply_all
       [put_value 7 1 (PStr ''Column Information''),
        set_font 7 1 (title_font 14),
        put_value 8 1 (PStr ''Column Name''),
        put_value 8 2 (PStr ''Data Type''),
        put_value 8 3 (PStr ''Non-Null Count''),
        put_value 8 4 (PStr ''Null Count''),
        put_value 8 5 (PStr ''Null Percentage''),
        update_range summary_header_style [8] [1, 2, 3, 4, 5]]"
  have h: "summary_head_of s df ws = ?post (put_value 5 2 (PStr s) (?pre ws))" for s
    by (simp add: summary_head_of_def apply_all_def)
  have "keeps_same ?post"
    by (rule keeps_same_apply_all)
       (auto intro: keeps_same_put_value keeps_same_set_font
          keeps_same_update_range[OF value_fun_header])
  moreover have "same_but_B5 (put_value 5 2 (PStr s1) (?pre ws)) (put_value 5 2 (PStr s2) (?pre ws))"
    by (rule same_put_B5) (rule same_but_B5_refl)
  ultimately show ?thesis unfolding h by (rule keeps_sameD)
qed

lemma same_summary_sheet:
  "same_but_B5 (summary_sheet_of L s1 df ws) (summary_sheet_of L s2 df ws)"
proof -
  let ?w = "\<lambda>s. fold (\<lambda>(i, s). info_row df i s) (enumerate 9 (df_columns df))
                  (summary_head_of s df ws)"
  have a: "same_but_B5 (?w s1) (?w s2)"
    by (rule keeps_sameD[OF keeps_same_info_rows same_summary_head])
  have "same_but_B5 (if 0 < length (numeric_cols df) then stats_block_of L df (?w s1) else ?w s1)
                    (if 0 < length (numeric_cols df) then stats_block_of L df (?w s2) else ?w s2)"
    using a keeps_sameD[OF keeps_same_stats_block a, of L df] by simp
  from same_auto_adjust_widths[OF this]
  show ?thesis by (simp add: summary_sheet_of_def Let_def)
qed

lemma create_sheet_names:
  "sheetnames wb = sheetnames wbx \<Longrightarrow> create_sheet L wb t = create_sheet L wbx t"
  by (simp add: create_sheet_def)

lemma create_charts_sheet_names:
  assumes "sheetnames wb = sheetnames wbx"
    "create_charts_sheet L wb df = Inr wb'" "create_charts_sheet L wbx df = Inr wbx'"
  shows "\<exists>ws. wb' = add_sheet wb ws \<and> wbx' = add_sheet wbx ws"
proof -
  from assms(2) obtain ws0 ws1 where
    a: "create_sheet L wb ''Data Visualizations'' = Inr ws0"
    and b: "set_value 1 1 (PStr ''Data Visualizations'') ws0 = Inr ws1"
    unfolding create_charts_sheet_def by (auto simp: bind_eq_Inr)
  have a': "create_sheet L wbx ''Data Visualizations'' = Inr ws0"
    using a create_sheet_names[OF assms(1)] by simp
  let ?ws = "set_font 1 1 (title_font 16) ws1"
  show ?thesis
  proof (cases "0 < length (numeric_cols df)")
    case False
    with assms(2,3) a a' b show ?thesis by (auto simp: create_charts_sheet_def)
  next
    case True
    with assms(2) a b obtain rows where
      r: "chart_rows L df (take 10 (numeric_cols df)) [] = Inr rows"
      by (auto simp: create_charts_sheet_def Let_def bind_eq_Inr)
    show ?thesis
    proof (cases "rows = []")
      case True
      with assms(2,3) a a' b r \<open>0 < length (numeric_cols df)\<close> show ?thesis
        by (auto simp: create_charts_sheet_def)
    next
      case False
      with assms(2) a b r True obtain ws' where
        c: "charts_body rows ?ws = Inr ws'"
        by (auto simp: create_charts_sheet_def Let_def bind_eq_Inr)
      with assms(2,3) a a' b r True False show ?thesis
        by (auto simp: create_charts_sheet_def Let_def)
    qed
  qed
qed

lemma analysis_sheet_names:
  assumes "sheetnames wb = sheetnames wbx"
    "analysis_sheet L df wb col vc = Inr wb'" "analysis_sheet L df wbx col vc = Inr wbx'"
  shows "\<exists>ws. wb' = add_sheet wb ws \<and> wbx' = add_sheet wbx ws"
proof -
  from assms(2) obtain ws ws0 ws1 where
    a: "create_sheet L wb (take 25 col @ ''_Analysis'') = Inr ws"
    and b: "analysis_head col ws = Inr ws0"
    and c: "analysis_rows L (df_len df) (enumerate 4 vc) ws0 = Inr ws1"
    unfolding analysis_sheet_def by (auto simp: bind_eq_Inr)
  have a': "create_sheet L wbx (take 25 col @ ''_Analysis'') = Inr ws"
    using a create_sheet_names[OF assms(1)] by simp
  from assms(2,3) a a' b c show ?thesis by (auto simp: analysis_sheet_def)
qed

lemma sheetnames_add_sheet [simp]: "sheetnames (add_sheet wb ws) = sheetnames wb @ [title ws]"
  by (simp add: sheetnames_def add_sheet_def)

lemma filtered_loop_names:
  assumes "sheetnames wb = sheetnames wbx"
    "filtered_loop L df cols wb = Inr wb'" "filtered_loop L df cols wbx = Inr wbx'"
  shows "\<exists>new. wb' = wb\<lparr>worksheets := worksheets wb @ new\<rparr>
             \<and> wbx' = wbx\<lparr>worksheets := worksheets wbx @ new\<rparr>"
  using assms
proof (induction cols arbitrary: wb wbx)
  case Nil
  then show ?case by (intro exI[of _ "[]"]) simp
next
  case (Cons col cols)
  from Cons.prems(2) obtain s where s: "series_of AttributeError df col = Inr s"
    by (auto simp: bind_eq_Inr)
  show ?case
  proof (cases "length (unique s) \<le> 20 \<and> 1 < length (value_counts s)")
    case False
    then have "filtered_loop L df cols wb = Inr wb'" "filtered_loop L df cols wbx = Inr wbx'"
      using Cons.prems(2,3) s by (auto split: if_splits)
    from Cons.IH[OF Cons.prems(1) this] show ?thesis .
  next
    case True
    with Cons.prems(2,3) s obtain w1 wx1 where
      a: "analysis_sheet L df wb col (value_counts s) = Inr w1"
      "filtered_loop L df cols w1 = Inr wb'"
      and b: "analysis_sheet L df wbx col (value_counts s) = Inr wx1"
      "filtered_loop L df cols wx1 = Inr wbx'"
      by (auto simp: bind_eq_Inr)
    from analysis_sheet_names[OF Cons.prems(1) a(1) b(1)]
    obtain ws where ws: "w1 = add_sheet wb ws" "wx1 = add_sheet wbx ws" by blast
    have "sheetnames w1 = sheetnames wx1" using ws Cons.prems(1) by simp
    from Cons.IH[OF this a(2) b(2)] obtain new where
      n: "wb' = w1\<lparr>worksheets := worksheets w1 @ new\<rparr>"
      "wbx' = wx1\<lparr>worksheets := worksheets wx1 @ new\<rparr>" by blast
    show ?thesis
      by (intro exI[of _ "ws # new"]) (simp add: n ws add_sheet_def)
  qed
qed

lemma summary_sheet_B5:
  "cvalue (get_cell (summary_sheet_of L stamp df ws) 5 2) = PStr (take 32767 stamp)"
proof -
  let ?ws1 = "fold (\<lambda>(i, s). info_row df i s) (enumerate 9 (df_columns df))
                (summary_head_of stamp df ws)"
  let ?ws2 = "if 0 < length (numeric_cols df) then stats_block_of L df ?ws1 else ?ws1"
  have "get_cell ?ws2 5 2 = get_cell ?ws1 5 2"
    using keeps_above_stats_block[of df L] by (simp add: keeps_above_def)
  also have "\<dots> = get_cell (summary_head_of stamp df ws) 5 2"
    by (rule info_rows_other) simp
  finally have "get_cell ?ws2 5 2 = get_cell (summary_head_of stamp df ws) 5 2" .
  moreover have "cvalue (get_cell (summary_head_of stamp df ws) 5 2) = PStr (take 32767 stamp)"
    by (simp add: summary_head_of_def apply_all_def put_value_def set_font_def update_range_def
          get_cell_update_cell)
  ultimately show ?thesis
    by (simp add: summary_sheet_of_def Let_def get_cell_auto_adjust_widths)
qed

lemma build_workbook_sheets:
  assumes "build_workbook L clk1 self fs = Inr wb1" "build_workbook L clk2 self fs = Inr wb2"
  shows "\<exists>data main ws0 rest.
           worksheets wb1 = main # summary_sheet_of L (summary_stamp clk1) data ws0 # rest
         \<and> worksheets wb2 = main # summary_sheet_of L (summary_stamp clk2) data ws0 # rest
         \<and> active wb1 = active wb2 \<and> prop_title wb1 = prop_title wb2
         \<and> prop_subject wb1 = prop_subject wb2 \<and> prop_creator wb1 = prop_creator wb2
         \<and> prop_description wb1
             = Some (''Generated from '' @ basename (csv_file_path self) @ '' on ''
                     @ finalize_stamp clk1)
         \<and> prop_description wb2
             = Some (''Generated from '' @ basename (csv_file_path self) @ '' on ''
                     @ finalize_stamp clk2)"
proof -
  from assms(1) obtain data wbA S1 C1 F1 where
    l: "load_data L fs (csv_file_path self) = Inr data"
    and m: "create_main_data_sheet L create_workbook data = Inr wbA"
    and s1: "create_summary_sheet L (summary_stamp clk1) wbA data = Inr S1"
    and c1: "create_charts_sheet L S1 data = Inr C1"
    and f1: "create_filtered_sheets L C1 data = Inr F1"
    and w1: "wb1 = finalize_workbook (finalize_stamp clk1) self F1"
    unfolding build_workbook_def by (auto simp: bind_eq_Inr)
  from assms(2) l m obtain S2 C2 F2 where
    s2: "create_summary_sheet L (summary_stamp clk2) wbA data = Inr S2"
    and c2: "create_charts_sheet L S2 data = Inr C2"
    and f2: "create_filtered_sheets L C2 data = Inr F2"
    and w2: "wb2 = finalize_workbook (finalize_stamp clk2) self F2"
    unfolding build_workbook_def by (auto simp: bind_eq_Inr)
  from m obtain main where wbA: "wbA = add_sheet create_workbook main"
    unfolding create_main_data_sheet_def by (auto simp: bind_eq_Inr)
  let ?ws0 = "new_worksheet (avoid_duplicate_name L (sheetnames wbA) ''Data Summary'')"
  let ?A = "summary_sheet_of L (summary_stamp clk1) data ?ws0"
  let ?B = "summary_sheet_of L (summary_stamp clk2) data ?ws0"
  have S1: "S1 = add_sheet wbA ?A" by (rule create_summary_sheet_Inr[OF s1])
  have S2: "S2 = add_sheet wbA ?B" by (rule create_summary_sheet_Inr[OF s2])
  have "title ?A = title ?B"
    using same_summary_sheet[of L "summary_stamp clk1" data ?ws0 "summary_stamp clk2"]
    unfolding same_but_B5_def by blast
  then have n1: "sheetnames S1 = sheetnames S2" by (simp add: S1 S2)
  from create_charts_sheet_names[OF n1 c1 c2] obtain cws where
    C: "C1 = add_sheet S1 cws" "C2 = add_sheet S2 cws" by blast
  have n2: "sheetnames C1 = sheetnames C2" using n1 C by simp
  from filtered_loop_names[OF n2] f1 f2 obtain new where
    F: "F1 = C1\<lparr>worksheets := worksheets C1 @ new\<rparr>"
    "F2 = C2\<lparr>worksheets := worksheets C2 @ new\<rparr>"
    unfolding create_filtered_sheets_def by blast
  have a: "worksheets wb1 = main # ?A # (cws # new)"
    by (simp add: w1 F C S1 wbA finalize_workbook_def add_sheet_def create_workbook_def)
  have b: "worksheets wb2 = main # ?B # (cws # new)"
    by (simp add: w2 F C S2 wbA finalize_workbook_def add_sheet_def create_workbook_def)
  have p: "active wb1 = active wb2" "prop_title wb1 = prop_title wb2"
    "prop_subject wb1 = prop_subject wb2" "prop_creator wb1 = prop_creator wb2"
    "prop_description wb1
             = Some (''Generated from '' @ basename (csv_file_path self) @ '' on ''
                     @ finalize_stamp clk1)"
    "prop_description wb2
             = Some (''Generated from '' @ basename (csv_file_path self) @ '' on ''
                     @ finalize_stamp clk2)"
    by (simp_all add: w1 w2 F C S1 S2 wbA finalize_workbook_def add_sheet_def create_workbook_def)
  show ?thesis
    by (intro exI[of _ data] exI[of _ main] exI[of _ ?ws0] exI[of _ "cws # new"] conjI)
       (rule a b p)+
qed

lemma create_filtered_sheets_total:
  assumes "wf_dataframe df" "distinct (map cname (df_columns df))"
    "\<forall>c \<in> set (df_columns df). valid_title (take 25 (cname c) @ ''_Analysis'')
        \<and> writable (PStr (cname c)) \<and> (\<forall>v \<in> set (cvalues c). writable (PStr (py_str L v)))"
  shows "\<exists>wb'. create_filtered_sheets L wb df = Inr wb'"
proof -
  let ?cs = "take 5 (filter (\<lambda>c. cdtype c = Object) (df_columns df))"
  have names: "take 5 (categorical_cols df) = map cname ?cs"
    by (simp add: categorical_cols_def take_map)
  have sub: "set ?cs \<subseteq> set (df_columns df)"
    using set_take_subset[of 5 "filter (\<lambda>c. cdtype c = Object) (df_columns df)"] by auto
  have len: "\<forall>c \<in> set (df_columns df). length (cvalues c) = df_len df"
    using assms(1) by (simp add: wf_dataframe_def list_all_iff)
  have n: "\<forall>c \<in> set ?cs. cvalues c \<noteq> [] \<longrightarrow> df_len df \<noteq> 0"
  proof (intro ballI impI)
    fix c assume c: "c \<in> set ?cs" and ne: "cvalues c \<noteq> []"
    from c sub have "c \<in> set (df_columns df)" by blast
    with len have "length (cvalues c) = df_len df" by blast
    moreover have "length (cvalues c) \<noteq> 0" using ne by simp
    ultimately show "df_len df \<noteq> 0" by simp
  qed
  have v: "\<forall>c \<in> set ?cs. valid_title (take 25 (cname c) @ ''_Analysis'')"
    and w: "\<forall>c \<in> set ?cs. writable (PStr (cname c))
              \<and> (\<forall>v \<in> set (cvalues c). writable (PStr (py_str L v)))"
    using assms(3) sub by blast+
  from filtered_loop_total[OF assms(2) sub v n w]
  show ?thesis by (simp add: create_filtered_sheets_def names)
qed

lemma sample_run_returns:
  assumes "writable (PStr (summary_stamp clk))"
  shows "\<exists>fs'. convert (sample_library table_ab) clk (init ''data.csv'' (Some ''out.xlsx''))
                 ab_fs = (True, fs')"
proof -
  let ?L = "sample_library table_ab"
  have wf: "wf_dataframe table_ab" by (simp add: wf_dataframe_def table_ab_def)
  have d: "distinct (map cname (df_columns table_ab))" by (simp add: table_ab_def)
  have st: "strip_columns table_ab = table_ab"
    by (simp add: strip_columns_def table_ab_def py_strip_def py_isspace_def)
  have l: "load_data ?L ab_fs (csv_file_path (init ''data.csv'' (Some ''out.xlsx'')))
             = Inr table_ab"
    by (simp add: load_data_def try_except_def sample_library_def ab_fs_def init_def st)
  have "writable_frame table_ab" by (simp add: writable_frame_def table_ab_def writable_eval)
  then obtain wbA where m: "create_main_data_sheet ?L create_workbook table_ab = Inr wbA"
    by (simp add: create_main_data_sheet_cases[OF wf])
  have "\<forall>c \<in> set (df_columns table_ab). writable (PStr (cname c))"
    by (simp add: table_ab_def writable_eval)
  from create_summary_sheet_total[OF d this assms, of ?L wbA]
  obtain S where s: "create_summary_sheet ?L (summary_stamp clk) wbA table_ab = Inr S" by blast
  have "set (take 10 (filter (\<lambda>c. is_number (cdtype c)) (df_columns table_ab)))
          \<subseteq> set (df_columns table_ab)"
    "\<forall>c \<in> set (take 10 (filter (\<lambda>c. is_number (cdtype c)) (df_columns table_ab))).
        series_mean ?L c = NaN"
    by (simp_all add: table_ab_def sample_library_def)
  from chart_rows_undefined[OF d this]
  have cr: "chart_rows ?L table_ab (take 10 (numeric_cols table_ab)) [] = Inr []"
    by (simp add: numeric_cols_def take_map)
  have "\<exists>C. create_charts_sheet ?L S table_ab = Inr C"
    by (simp add: create_charts_sheet_def create_sheet_def set_value_cases writable_eval
          Let_def cr)
  then obtain C where c: "create_charts_sheet ?L S table_ab = Inr C" by blast
  have "\<forall>c \<in> set (df_columns table_ab). valid_title (take 25 (cname c) @ ''_Analysis'')
        \<and> writable (PStr (cname c)) \<and> (\<forall>v \<in> set (cvalues c). writable (PStr (py_str ?L v)))"
    by (simp add: table_ab_def valid_title_def invalid_title_chars_def writable_eval py_str_def
          str_int_def str_nat.simps digit_char_def)
  from create_filtered_sheets_total[OF wf d this, of C]
  obtain F where f: "create_filtered_sheets ?L C table_ab = Inr F" by blast
  have b: "build_workbook ?L clk (init ''data.csv'' (Some ''out.xlsx'')) ab_fs
             = Inr (finalize_workbook (finalize_stamp clk) (init ''data.csv'' (Some ''out.xlsx'')) F)"
    by (simp add: build_workbook_def l m s c f)
  have sv: "save ?L wb p ab_fs = (None, ab_fs(p := Some (WorkbookFile wb)))" for wb p
    by (simp add: save_def sample_library_def)
  show ?thesis
    by (simp add: convert_def b sv)
qed

text \<open>
  Claim C6. Two runs of \<^verbatim>\<open>convert\<close> on the same files that both succeed, at
  whatever times, leave two workbooks with the same sheet titles in the same order and
  the same value in every cell of every sheet, except for cell B5 of the second sheet
  (the summary sheet), which holds the time of the run; the active sheet and the title,
  subject and creator of the workbook are the same, and the description ends in the date
  of the run.
\<close>

theorem rerun_differs_in_timestamp_only:
  assumes "convert L clk1 self fs = (True, fs1)" "convert L clk2 self fs = (True, fs2)"
  shows "\<exists>wb1 wb2.
      fs1 (output_file_path self) = Some (WorkbookFile wb1)
    \<and> fs2 (output_file_path self) = Some (WorkbookFile wb2)
    \<and> map title (worksheets wb1) = map title (worksheets wb2)
    \<and> (\<forall>k r c. k < length (worksheets wb1) \<and> (k, r, c) \<noteq> (1, 5, 2) \<longrightarrow>
          map_option cvalue (cells (worksheets wb1 ! k) (r, c))
            = map_option cvalue (cells (worksheets wb2 ! k) (r, c)))
    \<and> cvalue (get_cell (worksheets wb1 ! 1) 5 2) = PStr (take 32767 (summary_stamp clk1))
    \<and> cvalue (get_cell (worksheets wb2 ! 1) 5 2) = PStr (take 32767 (summary_stamp clk2))
    \<and> active wb1 = active wb2 \<and> prop_title wb1 = prop_title wb2
    \<and> prop_subject wb1 = prop_subject wb2 \<and> prop_creator wb1 = prop_creator wb2
    \<and> prop_description wb1
         = Some (''Generated from '' @ basename (csv_file_path self) @ '' on ''
                 @ finalize_stamp clk1)
    \<and> prop_description wb2
         = Some (''Generated from '' @ basename (csv_file_path self) @ '' on ''
                 @ finalize_stamp clk2)"
proof -
  from convert_True[OF assms(1)] obtain wb1 where
    b1: "build_workbook L clk1 self fs = Inr wb1"
    and f1: "fs1 = fs(output_file_path self := Some (WorkbookFile wb1))" by blast
  from convert_True[OF assms(2)] obtain wb2 where
    b2: "build_workbook L clk2 self fs = Inr wb2"
    and f2: "fs2 = fs(output_file_path self := Some (WorkbookFile wb2))" by blast
  from build_workbook_sheets[OF b1 b2] obtain data main ws0 rest where
    w1: "worksheets wb1 = main # summary_sheet_of L (summary_stamp clk1) data ws0 # rest"
    and w2: "worksheets wb2 = main # summary_sheet_of L (summary_stamp clk2) data ws0 # rest"
    and p: "active wb1 = active wb2" "prop_title wb1 = prop_title wb2"
      "prop_subject wb1 = prop_subject wb2" "prop_creator wb1 = prop_creator wb2"
      "prop_description wb1
         = Some (''Generated from '' @ basename (csv_file_path self) @ '' on ''
                 @ finalize_stamp clk1)"
      "prop_description wb2
         = Some (''Generated from '' @ basename (csv_file_path self) @ '' on ''
                 @ finalize_stamp clk2)"
    by blast
  let ?A = "summary_sheet_of L (summary_stamp clk1) data ws0"
  let ?B = "summary_sheet_of L (summary_stamp clk2) data ws0"
  have sim: "same_but_B5 ?A ?B" by (rule same_summary_sheet)
  then have t: "title ?A = title ?B"
    and v: "\<And>pos. pos \<noteq> (5, 2) \<Longrightarrow>
              map_option cvalue (cells ?A pos) = map_option cvalue (cells ?B pos)"
    unfolding same_but_B5_def by blast+
  have titles: "map title (worksheets wb1) = map title (worksheets wb2)"
    by (simp add: w1 w2 t)
  have vals: "\<forall>k r c. k < length (worksheets wb1) \<and> (k, r, c) \<noteq> (1, 5, 2) \<longrightarrow>
          map_option cvalue (cells (worksheets wb1 ! k) (r, c))
            = map_option cvalue (cells (worksheets wb2 ! k) (r, c))"
  proof (intro allI impI)
    fix k r c :: nat
    assume a: "k < length (worksheets wb1) \<and> (k, r, c) \<noteq> (1, 5, 2)"
    show "map_option cvalue (cells (worksheets wb1 ! k) (r, c))
            = map_option cvalue (cells (worksheets wb2 ! k) (r, c))"
    proof (cases k)
      case 0
      then show ?thesis by (simp add: w1 w2)
    next
      case (Suc k')
      show ?thesis
      proof (cases k')
        case 0
        with Suc a have "(r, c) \<noteq> (5, 2)" by simp
        from v[OF this] Suc 0 show ?thesis by (simp add: w1 w2)
      next
        case (Suc k'')
        with \<open>k = Suc k'\<close> show ?thesis by (simp add: w1 w2)
      qed
    qed
  qed
  have s1: "cvalue (get_cell (worksheets wb1 ! 1) 5 2) = PStr (take 32767 (summary_stamp clk1))"
    by (simp add: w1 summary_sheet_B5)
  have s2: "cvalue (get_cell (worksheets wb2 ! 1) 5 2) = PStr (take 32767 (summary_stamp clk2))"
    by (simp add: w2 summary_sheet_B5)
  have o1: "fs1 (output_file_path self) = Some (WorkbookFile wb1)" by (simp add: f1)
  have o2: "fs2 (output_file_path self) = Some (WorkbookFile wb2)" by (simp add: f2)
  show ?thesis
    by (intro exI[of _ wb1] exI[of _ wb2] conjI) (rule o1 o2 titles vals s1 s2 p)+
qed

theorem rerun_differs_in_timestamp_only_witness:
  "\<exists>fs1 fs2 wb1 wb2.
      convert (sample_library table_ab) sample_clock (init ''data.csv'' (Some ''out.xlsx''))
        ab_fs = (True, fs1)
    \<and> convert (sample_library table_ab) later_clock (init ''data.csv'' (Some ''out.xlsx''))
        ab_fs = (True, fs2)
    \<and> fs1 ''out.xlsx'' = Some (WorkbookFile wb1)
    \<and> fs2 ''out.xlsx'' = Some (WorkbookFile wb2)
    \<and> map title (worksheets wb1) = map title (worksheets wb2)
    \<and> cvalue (get_cell (worksheets wb1 ! 1) 5 2) = PStr ''2025-08-01 10:00:00''
    \<and> cvalue (get_cell (worksheets wb2 ! 1) 5 2) = PStr ''2025-08-02 11:30:00''
    \<and> map_option cvalue (cells (worksheets wb1 ! 1) (5, 1))
         = map_option cvalue (cells (worksheets wb2 ! 1) (5, 1))"
proof -
  let ?L = "sample_library table_ab"
  let ?self = "init ''data.csv'' (Some ''out.xlsx'')"
  have "writable (PStr (summary_stamp sample_clock))"
    by (simp add: sample_clock_def writable_eval)
  from sample_run_returns[OF this] obtain fs1 where
    r1: "convert ?L sample_clock ?self ab_fs = (True, fs1)" by blast
  have "writable (PStr (summary_stamp later_clock))"
    by (simp add: later_clock_def writable_eval)
  from sample_run_returns[OF this] obtain fs2 where
    r2: "convert ?L later_clock ?self ab_fs = (True, fs2)" by blast
  from rerun_differs_in_timestamp_only[OF r1 r2] obtain wb1 wb2 where
    w: "fs1 (output_file_path ?self) = Some (WorkbookFile wb1)"
      "fs2 (output_file_path ?self) = Some (WorkbookFile wb2)"
      "map title (worksheets wb1) = map title (worksheets wb2)"
      "\<forall>k r c. k < length (worksheets wb1) \<and> (k, r, c) \<noteq> (1, 5, 2) \<longrightarrow>
          map_option cvalue (cells (worksheets wb1 ! k) (r, c))
            = map_option cvalue (cells (worksheets wb2 ! k) (r, c))"
      "cvalue (get_cell (worksheets wb1 ! 1) 5 2) = PStr (take 32767 (summary_stamp sample_clock))"
      "cvalue (get_cell (worksheets wb2 ! 1) 5 2) = PStr (take 32767 (summary_stamp later_clock))"
    by blast
  from convert_True[OF r1] obtain wb where
    "build_workbook ?L sample_clock ?self ab_fs = Inr wb"
    "fs1 = ab_fs(output_file_path ?self := Some (WorkbookFile wb))" by blast
  with w(1) have b: "build_workbook ?L sample_clock ?self ab_fs = Inr wb1" by simp
  from build_workbook_sheets[OF b b] have "1 < length (worksheets wb1)" by auto
  with w(4) have e: "map_option cvalue (cells (worksheets wb1 ! 1) (5, 1))
         = map_option cvalue (cells (worksheets wb2 ! 1) (5, 1))"
    by simp
  have o: "output_file_path ?self = ''out.xlsx''" by (simp add: init_def)
  show ?thesis
    by (intro exI[of _ fs1] exI[of _ fs2] exI[of _ wb1] exI[of _ wb2])
       (use r1 r2 w(1,2,3,5,6) e o in \<open>simp add: sample_clock_def later_clock_def\<close>)
qed

end
